theory Spec2Isabelle
  imports Main "HOL-Library.Word" "HOL-Library.Char_ord" "HOL-Library.List_Lexorder"
    "HOL-Library.Product_Lexorder"
begin

section \<open>Errors\<close>

text \<open>
  The loader reports failures through \<open>boost::leaf::result\<close>. \<open>RETURN_GS_ERROR(code, msg)\<close>
  becomes \<open>Inl (GSError code msg)\<close>. The macro \<open>CHECK_OR_RAISE\<close> is defined outside the
  loader (graph/utils/error.h), so the error it returns is kept apart as \<open>CheckFailed\<close>.
  A C++ exception that leaves a function is \<open>Thrown\<close>; an out-of-range \<open>operator[]\<close> on a
  vector or schema is undefined behaviour in C++, and the model stops there with
  \<open>UndefinedBehaviour\<close>. \<open>ExternalError\<close> is an error returned by a collaborator whose
  code is not part of the loader (I/O adaptor, OID set, object store).
\<close>

datatype ErrorCode = kIOError | kInvalidValueError | kInvalidOperationError | kDataTypeError

datatype failure =
    GSError ErrorCode string
  | CheckFailed string
  | Thrown string
  | UndefinedBehaviour
  | ExternalError string

section \<open>Arrow data model\<close>

datatype DataType = timestamp_SECOND | int64 | float64 | utf8 | other_type string

record Field =
  field_name :: string
  field_type :: DataType
  field_nullable :: bool

record Schema =
  schema_fields :: "Field list"
  schema_metadata :: "(string \<times> string) list option"

definition num_fields :: "Schema \<Rightarrow> nat" where
  "num_fields s = length (schema_fields s)"

definition WithType :: "Field \<Rightarrow> DataType \<Rightarrow> Field" where
  "WithType f t = f\<lparr>field_type := t\<rparr>"

section \<open>TypeLoosen\<close>

text \<open>The first loop of \<open>TypeLoosen\<close>: the field count of the first non-null schema,
  0 when there is none.\<close>

fun first_num_fields :: "Schema option list \<Rightarrow> nat" where
  "first_num_fields [] = 0"
| "first_num_fields (None # ss) = first_num_fields ss"
| "first_num_fields (Some s # ss) = num_fields s"

fun non_null :: "'a option list \<Rightarrow> 'a list" where
  "non_null [] = []"
| "non_null (None # xs) = non_null xs"
| "non_null (Some x # xs) = x # non_null xs"

text \<open>The body of the last loop of \<open>TypeLoosen\<close> for one column, on the types
  \<open>fields[i][0]->type(), fields[i][1]->type(), ...\<close>: the two scans start at \<open>j = 1\<close>.\<close>

definition loosen_type :: "DataType list \<Rightarrow> DataType" where
  "loosen_type ts =
     (let res = hd ts;
          res = (if res = timestamp_SECOND then int64 else res);
          res = (if res = int64 \<and> float64 \<in> set (tl ts) then float64 else res);
          res = (if res = float64 \<and> utf8 \<in> set (tl ts) then utf8 else res)
      in res)"

definition loosen_field :: "Field list \<Rightarrow> Field" where
  "loosen_field fs = WithType (hd fs) (loosen_type (map field_type fs))"

text \<open>\<open>fields[i]\<close>: the i-th field of every non-null schema, in the order gathered.
  \<open>schema->field(i)\<close> is unchecked: a non-null schema with fewer fields than the first
  one is read out of range.\<close>

definition column_fields :: "Schema list \<Rightarrow> nat \<Rightarrow> Field list" where
  "column_fields present i = map (\<lambda>s. schema_fields s ! i) present"

definition TypeLoosen :: "Schema option list \<Rightarrow> failure + Schema" where
  "TypeLoosen schemas =
     (let field_num = first_num_fields schemas in
      if field_num = 0
      then Inl (GSError kInvalidOperationError ''Every schema is empty'')
      else let present = non_null schemas in
        if list_ex (\<lambda>s. num_fields s < field_num) present
        then Inl UndefinedBehaviour
        else Inr \<lparr>schema_fields = map (\<lambda>i. loosen_field (column_fields present i)) [0..<field_num],
                  schema_metadata = None\<rparr>)"

section \<open>Arrays and tables\<close>

text \<open>
  An array is a sequence of slots; a slot is its validity bit and the raw value in the
  values buffer. A timestamp array stores 64-bit integers, as an int64 array does.
  \<open>'d\<close> is the type of C++ \<open>double\<close>.
\<close>

datatype 'd Array =
    Int64Array "(bool \<times> 64 word) list"
  | TimestampArray "(bool \<times> 64 word) list"
  | DoubleArray "(bool \<times> 'd) list"
  | StringArray "(bool \<times> string) list"
  | OtherArray string nat

fun array_type :: "'d Array \<Rightarrow> DataType" where
  "array_type (Int64Array _) = int64"
| "array_type (TimestampArray _) = timestamp_SECOND"
| "array_type (DoubleArray _) = float64"
| "array_type (StringArray _) = utf8"
| "array_type (OtherArray n _) = other_type n"

fun array_length :: "'d Array \<Rightarrow> nat" where
  "array_length (Int64Array xs) = length xs"
| "array_length (TimestampArray xs) = length xs"
| "array_length (DoubleArray xs) = length xs"
| "array_length (StringArray xs) = length xs"
| "array_length (OtherArray _ n) = n"

type_synonym 'd ChunkedArray = "'d Array list"

text \<open>An \<open>arrow::Table\<close>: its schema and one chunked array per field of the schema.\<close>

record 'd Table =
  table_schema :: Schema
  table_columns :: "'d ChunkedArray list"

definition num_columns :: "'d Table \<Rightarrow> nat" where
  "num_columns t = num_fields (table_schema t)"

definition chunked_length :: "'d ChunkedArray \<Rightarrow> nat" where
  "chunked_length c = sum_list (map array_length c)"

definition num_rows :: "'d Table \<Rightarrow> nat" where
  "num_rows t = (case table_columns t of [] \<Rightarrow> 0 | c # _ \<Rightarrow> chunked_length c)"


text \<open>
  What the loader takes from its libraries: the conversion \<open>static_cast<double>\<close> of
  a 64-bit integer, and the comparison of schema metadata inside \<open>arrow::Schema::Equals\<close>
  (constantly true in the Arrow versions that do not compare metadata by default).
\<close>

record 'd arrow_rt =
  static_cast_double :: "64 word \<Rightarrow> 'd"
  metadata_Equals :: "(string \<times> string) list option \<Rightarrow> (string \<times> string) list option \<Rightarrow> bool"

definition Schema_Equals :: "'d arrow_rt \<Rightarrow> Schema \<Rightarrow> Schema \<Rightarrow> bool" where
  "Schema_Equals rt a b =
     (schema_fields a = schema_fields b \<and>
      metadata_Equals rt (schema_metadata a) (schema_metadata b))"

fun ToString :: "DataType \<Rightarrow> string" where
  "ToString timestamp_SECOND = ''timestamp[s]''"
| "ToString int64 = ''int64''"
| "ToString float64 = ''double''"
| "ToString utf8 = ''string''"
| "ToString (other_type n) = n"

section \<open>Casting a table to the reconciled schema\<close>

text \<open>\<open>CastIntToDouble\<close>: the values buffer is converted slot by slot; the builder
  appends the values without a validity bitmap, so every output slot is valid.\<close>

definition CastIntToDouble :: "'d arrow_rt \<Rightarrow> 'd Array \<Rightarrow> DataType \<Rightarrow> failure + 'd Array" where
  "CastIntToDouble rt arr to_type =
     (case arr of
        Int64Array in_data \<Rightarrow>
          if to_type \<noteq> float64
          then Inl (CheckFailed ''to_type->Equals(arrow::float64())'')
          else Inr (DoubleArray (map (\<lambda>(v, x). (True, static_cast_double rt x)) in_data))
      | _ \<Rightarrow> Inl (CheckFailed ''in->type()->Equals(arrow::int64())''))"

text \<open>\<open>CastDateToInt\<close>: the array data is copied and only its type is replaced.\<close>

definition CastDateToInt :: "'d Array \<Rightarrow> DataType \<Rightarrow> failure + 'd Array" where
  "CastDateToInt arr to_type =
     (case arr of
        TimestampArray array_data \<Rightarrow>
          if to_type \<noteq> int64
          then Inl (CheckFailed ''to_type->Equals(arrow::int64())'')
          else Inr (Int64Array array_data)
      | _ \<Rightarrow> Inl (CheckFailed
            ''in->type()->Equals(arrow::timestamp(arrow::TimeUnit::SECOND))''))"

text \<open>The loop over the chunks of one mismatched column.\<close>

fun cast_chunks :: "'d arrow_rt \<Rightarrow> DataType \<Rightarrow> DataType \<Rightarrow> 'd Array list \<Rightarrow> failure + 'd Array list" where
  "cast_chunks rt from_type to_type [] = Inr []"
| "cast_chunks rt from_type to_type (array # rest) =
     (if from_type = int64 \<and> to_type = float64 then
        (case CastIntToDouble rt array to_type of
           Inl e \<Rightarrow> Inl e
         | Inr new_array \<Rightarrow>
             (case cast_chunks rt from_type to_type rest of
                Inl e \<Rightarrow> Inl e
              | Inr chunks \<Rightarrow> Inr (new_array # chunks)))
      else if from_type = timestamp_SECOND \<and> to_type = int64 then
        (case CastDateToInt array to_type of
           Inl e \<Rightarrow> Inl e
         | Inr new_array \<Rightarrow>
             (case cast_chunks rt from_type to_type rest of
                Inl e \<Rightarrow> Inl e
              | Inr chunks \<Rightarrow> Inr (new_array # chunks)))
      else Inl (GSError kDataTypeError
             (''Unexpected type: '' @ ToString to_type @ ''; Origin type: '' @ ToString from_type)))"

text \<open>The loop over the columns, on the triples
  \<open>(table->field(i), table->column(i), schema->field(i))\<close>; for a valid table and a
  schema with as many fields there is one triple per column.\<close>

fun cast_columns :: "'d arrow_rt \<Rightarrow> (Field \<times> 'd ChunkedArray \<times> Field) list \<Rightarrow> failure + 'd ChunkedArray list" where
  "cast_columns rt [] = Inr []"
| "cast_columns rt ((tf, col, sf) # rest) =
     (case (if field_type tf \<noteq> field_type sf
            then cast_chunks rt (field_type tf) (field_type sf) col
            else Inr col) of
        Inl e \<Rightarrow> Inl e
      | Inr c \<Rightarrow>
          (case cast_columns rt rest of
             Inl e \<Rightarrow> Inl e
           | Inr new_columns \<Rightarrow> Inr (c # new_columns)))"

definition column_triples :: "'d Table \<Rightarrow> Schema \<Rightarrow> (Field \<times> 'd ChunkedArray \<times> Field) list" where
  "column_triples t s = zip (schema_fields (table_schema t)) (zip (table_columns t) (schema_fields s))"

definition CastTableToSchema :: "'d arrow_rt \<Rightarrow> 'd Table \<Rightarrow> Schema \<Rightarrow> failure + 'd Table" where
  "CastTableToSchema rt t s =
     (if Schema_Equals rt (table_schema t) s then Inr t
      else if num_columns t \<noteq> num_fields s
      then Inl (CheckFailed ''table->num_columns() == schema->num_fields()'')
      else case cast_columns rt (column_triples t s) of
             Inl e \<Rightarrow> Inl e
           | Inr new_columns \<Rightarrow> Inr \<lparr>table_schema = s, table_columns = new_columns\<rparr>)"

section \<open>SyncSchema\<close>

text \<open>
  Modelled from the spec: \<open>vineyard::EmptyTableBuilder::Build\<close> is declared outside the
  loader. The spec asks for "an empty table conforming to the reconciled schema (zero
  rows, correct column types)": the table of the given schema with one array without
  slots per field, of the type of the field.
\<close>

fun empty_array :: "DataType \<Rightarrow> 'd Array" where
  "empty_array int64 = Int64Array []"
| "empty_array timestamp_SECOND = TimestampArray []"
| "empty_array float64 = DoubleArray []"
| "empty_array utf8 = StringArray []"
| "empty_array (other_type n) = OtherArray n 0"

definition EmptyTableBuilder_Build :: "Schema \<Rightarrow> failure + 'd Table" where
  "EmptyTableBuilder_Build s =
     Inr \<lparr>table_schema = s,
          table_columns = map (\<lambda>f. [empty_array (field_type f)]) (schema_fields s)\<rparr>"

text \<open>
  \<open>SyncSchema\<close> on one worker. \<open>schemas\<close> is what \<open>GlobalAllGatherv\<close> filled in:
  the local schemas of all workers, by rank, null for a worker without a table.
\<close>

definition SyncSchema :: "'d arrow_rt \<Rightarrow> 'd Table option \<Rightarrow> Schema option list \<Rightarrow> failure + 'd Table" where
  "SyncSchema rt table schemas =
     (case TypeLoosen schemas of
        Inl e \<Rightarrow> Inl e
      | Inr normalized_schema \<Rightarrow>
          (case table of
             None \<Rightarrow> EmptyTableBuilder_Build normalized_schema
           | Some t \<Rightarrow> CastTableToSchema rt t normalized_schema))"

text \<open>
  Modelled from the spec: the all-gather collective (\<open>GlobalAllGatherv\<close>) is not part of
  the loader's sources; the spec gives \<open>all_gather(local_value) -> ordered_sequence_by_rank\<close>.
  A group of workers is the list of their local tables by rank, and every worker
  receives the same sequence of local schemas.
\<close>

definition local_schema :: "'d Table option \<Rightarrow> Schema option" where
  "local_schema table = (case table of None \<Rightarrow> None | Some t \<Rightarrow> Some (table_schema t))"

definition GlobalAllGatherv :: "'d Table option list \<Rightarrow> Schema option list" where
  "GlobalAllGatherv tables = map local_schema tables"

definition SyncSchema_group :: "'d arrow_rt \<Rightarrow> 'd Table option list \<Rightarrow> (failure + 'd Table) list" where
  "SyncSchema_group rt tables = map (\<lambda>table. SyncSchema rt table (GlobalAllGatherv tables)) tables"

section \<open>The widening lattice of the specification\<close>

text \<open>
  The order \<open>timestamp(seconds) \<rightarrow> integer(64-bit) \<rightarrow> floating(64-bit) \<rightarrow> UTF-8 string\<close>
  of the specification, written from its words and not from the code: the rank of a type
  in the chain, the join of two types, and the least upper bound of a non-empty list of
  contributed types. Types outside the chain are not in the lattice.
\<close>

fun in_lattice :: "DataType \<Rightarrow> bool" where
  "in_lattice (other_type _) = False"
| "in_lattice _ = True"

fun lattice_rank :: "DataType \<Rightarrow> nat" where
  "lattice_rank timestamp_SECOND = 0"
| "lattice_rank int64 = 1"
| "lattice_rank float64 = 2"
| "lattice_rank utf8 = 3"
| "lattice_rank (other_type _) = 0"

definition lattice_sup :: "DataType \<Rightarrow> DataType \<Rightarrow> DataType" where
  "lattice_sup a b = (if lattice_rank a \<le> lattice_rank b then b else a)"

definition lattice_lub :: "DataType list \<Rightarrow> DataType" where
  "lattice_lub ts = fold lattice_sup (tl ts) (hd ts)"

text \<open>The types contributed to column \<open>i\<close>, in the order gathered; and the schema
  \<open>TypeLoosen\<close> builds when it succeeds.\<close>

definition column_types :: "Schema option list \<Rightarrow> nat \<Rightarrow> DataType list" where
  "column_types schemas i = map field_type (column_fields (non_null schemas) i)"

definition loosened_schema :: "Schema option list \<Rightarrow> Schema" where
  "loosened_schema schemas =
     \<lparr>schema_fields = map (\<lambda>i. loosen_field (column_fields (non_null schemas) i))
                         [0..<first_num_fields schemas],
      schema_metadata = None\<rparr>"

text \<open>A schema without metadata from column names and types, for concrete inputs.\<close>

definition mk_schema :: "(string \<times> DataType) list \<Rightarrow> Schema" where
  "mk_schema cols =
     \<lparr>schema_fields = map (\<lambda>(n, t). \<lparr>field_name = n, field_type = t, field_nullable = True\<rparr>) cols,
      schema_metadata = None\<rparr>"

section \<open>What the supported casts produce\<close>









text \<open>
  What the code returns for a column: \<open>int_to_double\<close> is \<open>CastIntToDouble\<close> on an
  int64 chunk, \<open>date_to_int\<close> is \<open>CastDateToInt\<close> on a timestamp chunk, and
  \<open>cast_column_result\<close> is the column \<open>CastTableToSchema\<close> builds from a triple (table
  field, column, schema field) that is not unsupported.
\<close>

fun int_to_double :: "'d arrow_rt \<Rightarrow> 'd Array \<Rightarrow> 'd Array" where
  "int_to_double rt (Int64Array slots) = DoubleArray (map (\<lambda>(v, x). (True, static_cast_double rt x)) slots)"
| "int_to_double rt a = a"

fun date_to_int :: "'d Array \<Rightarrow> 'd Array" where
  "date_to_int (TimestampArray slots) = Int64Array slots"
| "date_to_int a = a"


text \<open>A run-time for concrete inputs: a double is modelled by an integer, the
  conversion keeps the value, and \<open>Schema::Equals\<close> does not compare metadata.\<close>

definition exact_rt :: "int arrow_rt" where
  "exact_rt = \<lparr>static_cast_double = sint, metadata_Equals = (\<lambda>a b. True)\<rparr>"

section \<open>Containers and strings of the loader\<close>

text \<open>
  A \<open>std::map\<close> is an association list kept in the order of its keys, without duplicate
  keys; iteration follows the list. \<open>map_assign m k v\<close> is \<open>m[k] = v\<close>. A \<open>std::set\<close>
  is a list in increasing order without duplicates. Strings are ordered as
  \<open>std::string\<close> orders them, lexicographically by character code.
\<close>

fun map_assign :: "('k::linorder \<times> 'v) list \<Rightarrow> 'k \<Rightarrow> 'v \<Rightarrow> ('k \<times> 'v) list" where
  "map_assign [] k v = [(k, v)]"
| "map_assign ((k', v') # m) k v =
     (if k < k' then (k, v) # (k', v') # m
      else if k = k' then (k, v) # m
      else (k', v') # map_assign m k v)"

fun set_insert :: "'a::linorder \<Rightarrow> 'a list \<Rightarrow> 'a list" where
  "set_insert x [] = [x]"
| "set_insert x (y # ys) =
     (if x < y then x # y # ys
      else if x = y then y # ys
      else y # set_insert x ys)"

text \<open>\<open>boost::split(result, input, boost::is_any_of(";"))\<close>: the pieces between the
  semicolons, empty pieces included; the empty string has one empty piece.\<close>

fun boost_split :: "string \<Rightarrow> string list" where
  "boost_split [] = [[]]"
| "boost_split (c # cs) =
     (if c = CHR '';'' then [] # boost_split cs
      else (case boost_split cs of
              w # ws \<Rightarrow> (c # w) # ws
            | [] \<Rightarrow> [[c]]))"

text \<open>\<open>std::to_string\<close> on an integer: its decimal digits.\<close>

fun to_string_nat :: "nat \<Rightarrow> string" where
  "to_string_nat n =
     (if n < 10 then [char_of (48 + n)]
      else to_string_nat (n div 10) @ [char_of (48 + n mod 10)])"

declare to_string_nat.simps [simp del]

definition to_string :: "int \<Rightarrow> string" where
  "to_string i = (if i < 0 then CHR ''-'' # to_string_nat (nat (- i)) else to_string_nat (nat i))"

section \<open>The loader: state and collaborators\<close>

type_synonym label_id_t = int

definition LABEL_TAG :: string where "LABEL_TAG = ''label''"
definition SRC_LABEL_TAG :: string where "SRC_LABEL_TAG = ''src_label''"
definition DST_LABEL_TAG :: string where "DST_LABEL_TAG = ''dst_label''"

text \<open>The metadata keys \<open>basic_loader_t::ID_COLUMN\<close>, \<open>SRC_COLUMN\<close>, \<open>DST_COLUMN\<close>,
  \<open>SRC_LABEL_ID\<close> and \<open>DST_LABEL_ID\<close> are string constants declared outside the loader;
  the model uses their names as the keys.\<close>

definition ID_COLUMN :: string where "ID_COLUMN = ''ID_COLUMN''"
definition SRC_COLUMN :: string where "SRC_COLUMN = ''SRC_COLUMN''"
definition DST_COLUMN :: string where "DST_COLUMN = ''DST_COLUMN''"
definition SRC_LABEL_ID :: string where "SRC_LABEL_ID = ''SRC_LABEL_ID''"
definition DST_LABEL_ID :: string where "DST_LABEL_ID = ''DST_LABEL_ID''"

definition id_column :: nat where "id_column = 0"
definition src_column :: nat where "src_column = 0"
definition dst_column :: nat where "dst_column = 1"

text \<open>
  The collective steps a worker takes are logged in the ghost field \<open>collectives\<close> of
  the loader state: \<open>Agree\<close> for the agreement on success or failure inside
  \<open>sync_gs_error\<close>, \<open>AllGather\<close> for the all-gather of the local schemas. The other
  fields are the members of \<open>ArrowFragmentLoader\<close> that table acquisition reads and
  writes (\<open>vertex_label_to_index_\<close> and so on, without the trailing underscore).
\<close>

datatype collective = Agree | AllGather

record loader_state =
  vertex_label_to_index :: "(string \<times> label_id_t) list"
  edge_label_to_index :: "(string \<times> label_id_t) list"
  edge_vertex_label :: "(string \<times> (string \<times> string) list) list"
  vertex_label_num :: label_id_t
  edge_label_num :: label_id_t
  collectives :: "collective list"

text \<open>
  What one worker sees of its collaborators. \<open>GetMeta\<close> is the metadata the I/O adaptor
  derives from a location string; \<open>ReadTable\<close> is \<open>SetPartialRead\<close>, \<open>Open\<close> and
  \<open>ReadTable\<close> on that location, with a null table for an empty slice. For the k-th
  collective step of this worker, \<open>peer_failure k\<close> is the error some peer reports to
  the agreement (if any) and \<open>peer_schemas k\<close> are the schemas the peers send to the
  all-gather, by rank.
\<close>

record 'd loader_env =
  arrow :: "'d arrow_rt"
  worker_id :: nat
  GetMeta :: "string \<Rightarrow> (string \<rightharpoonup> string)"
  ReadTable :: "string \<Rightarrow> int \<Rightarrow> int \<Rightarrow> failure + 'd Table option"
  peer_failure :: "nat \<Rightarrow> failure option"
  peer_schemas :: "nat \<Rightarrow> Schema option list"

text \<open>
  Modelled from the spec: \<open>sync_gs_error\<close> is defined outside the loader. The spec
  describes it as "try locally, then agree on success/failure across the group before
  proceeding": the local result is computed first, the agreement is one collective step,
  and a worker that succeeded locally still fails when a peer reports an error.
\<close>

definition sync_gs_error :: "'d loader_env \<Rightarrow> failure + 'a \<Rightarrow> loader_state \<Rightarrow> (failure + 'a) \<times> loader_state" where
  "sync_gs_error env r st =
     (let k = length (collectives st);
          st' = st\<lparr>collectives := collectives st @ [Agree]\<rparr>
      in case r of
           Inl e \<Rightarrow> (Inl e, st')
         | Inr v \<Rightarrow>
             (case peer_failure env k of
                Some e \<Rightarrow> (Inl e, st')
              | None \<Rightarrow> (Inr v, st')))"

text \<open>\<open>SyncSchema(table, comm_spec_)\<close> as one worker runs it: the all-gather puts the local
  schema at this worker's rank among the peers' schemas.\<close>

definition SyncSchema_comm :: "'d loader_env \<Rightarrow> 'd Table option \<Rightarrow> loader_state \<Rightarrow> (failure + 'd Table) \<times> loader_state" where
  "SyncSchema_comm env table st =
     (let k = length (collectives st);
          schemas = (peer_schemas env k)[worker_id env := local_schema table]
      in (SyncSchema (arrow env) table schemas, st\<lparr>collectives := collectives st @ [AllGather]\<rparr>))"

text \<open>The two synchronized procedures every sub-source starts with in \<open>loadEdgeTables\<close>
  and in \<open>loadEVTablesFromEFiles\<close>: \<open>read_procedure\<close>, then \<open>sync_schema_procedure\<close>.\<close>

definition read_and_normalize :: "'d loader_env \<Rightarrow> string \<Rightarrow> int \<Rightarrow> int \<Rightarrow> loader_state \<Rightarrow> (failure + 'd Table) \<times> loader_state" where
  "read_and_normalize env location index total_parts st =
     (case sync_gs_error env (ReadTable env location index total_parts) st of
        (Inl e, st1) \<Rightarrow> (Inl e, st1)
      | (Inr table, st1) \<Rightarrow>
          (case SyncSchema_comm env table st1 of
             (r, st2) \<Rightarrow> sync_gs_error env r st2))"

definition ReplaceSchemaMetadata :: "'d Table \<Rightarrow> (string \<times> string) list \<Rightarrow> 'd Table" where
  "ReplaceSchemaMetadata t meta = t\<lparr>table_schema := (table_schema t)\<lparr>schema_metadata := Some meta\<rparr>\<rparr>"

text \<open>\<open>edge_vertex_label_[edge_label_name].insert(std::make_pair(src, dst))\<close>: the set
  of the label is created empty when the label is new.\<close>

definition insert_relation :: "(string \<times> (string \<times> string) list) list \<Rightarrow> string \<Rightarrow> string \<times> string \<Rightarrow> (string \<times> (string \<times> string) list) list" where
  "insert_relation m edge_label_name p =
     map_assign m edge_label_name
       (set_insert p (case map_of m edge_label_name of None \<Rightarrow> [] | Some s \<Rightarrow> s))"

section \<open>loadEdgeTables\<close>

text \<open>The metadata both loaders attach to an edge table, in the order appended.\<close>

definition edge_meta :: "nat \<Rightarrow> string \<Rightarrow> label_id_t \<Rightarrow> label_id_t \<Rightarrow> (string \<times> string) list" where
  "edge_meta sub_label_num edge_label_name src_label_id dst_label_id =
     [(''type'', ''EDGE''),
      (SRC_COLUMN, to_string (int src_column)),
      (DST_COLUMN, to_string (int dst_column)),
      (''sub_label_num'', to_string (int sub_label_num)),
      (''label'', edge_label_name),
      (SRC_LABEL_ID, to_string src_label_id),
      (DST_LABEL_ID, to_string dst_label_id)]"

text \<open>
  The metadata checks that \<open>loadEdgeTables\<close> and \<open>loadEVTablesFromEFiles\<close> make for a
  sub-source, in the order both make them: the edge label, the source label and its
  vertex label index, the destination label and its index. The lookups
  \<open>vertex_label_to_index_.at(...)\<close> throw \<open>std::out_of_range\<close> for a missing key; the
  \<open>catch\<close> block of either loader turns the exception into \<open>kIOError\<close> with
  \<open>e.what()\<close>, which is "map::at".
\<close>

definition resolve_labels :: "'d loader_env \<Rightarrow> loader_state \<Rightarrow> string \<Rightarrow> failure + string \<times> (string \<times> label_id_t) \<times> (string \<times> label_id_t)" where
  "resolve_labels env st location =
     (let adaptor_meta = GetMeta env location in
      case adaptor_meta LABEL_TAG of
        None \<Rightarrow> Inl (GSError kIOError
                  ''Metadata of input edge files should contain label name'')
      | Some edge_label_name \<Rightarrow>
      (case adaptor_meta SRC_LABEL_TAG of
        None \<Rightarrow> Inl (GSError kIOError
                  ''Metadata of input edge files should contain src label name'')
      | Some src_label_name \<Rightarrow>
      (case map_of (vertex_label_to_index st) src_label_name of
        None \<Rightarrow> Inl (GSError kIOError ''map::at'')
      | Some src_label_id \<Rightarrow>
      (case adaptor_meta DST_LABEL_TAG of
        None \<Rightarrow> Inl (GSError kIOError
                  ''Metadata of input edge files should contain dst label name'')
      | Some dst_label_name \<Rightarrow>
      (case map_of (vertex_label_to_index st) dst_label_name of
        None \<Rightarrow> Inl (GSError kIOError ''map::at'')
      | Some dst_label_id \<Rightarrow>
          Inr (edge_label_name, (src_label_name, src_label_id),
               (dst_label_name, dst_label_id)))))))"

text \<open>The body of the inner loop of \<open>loadEdgeTables\<close> for one sub-source.\<close>

definition loadEdgeTables_sub :: "'d loader_env \<Rightarrow> int \<Rightarrow> int \<Rightarrow> label_id_t \<Rightarrow> nat \<Rightarrow> string \<Rightarrow> loader_state \<Rightarrow> (failure + 'd Table) \<times> loader_state" where
  "loadEdgeTables_sub env index total_parts label_id sub_label_num sub_label_file st =
     (let location = sub_label_file @ ''#header_row=true'' in
      case read_and_normalize env location index total_parts st of
        (Inl e, st1) \<Rightarrow> (Inl e, st1)
      | (Inr normalized_table, st1) \<Rightarrow>
          (case resolve_labels env st1 location of
             Inl e \<Rightarrow> (Inl e, st1)
           | Inr (edge_label_name, (src_label_name, src_label_id),
                  (dst_label_name, dst_label_id)) \<Rightarrow>
               (Inr (ReplaceSchemaMetadata normalized_table
                       (edge_meta sub_label_num edge_label_name src_label_id dst_label_id)),
                st1\<lparr>edge_vertex_label :=
                       insert_relation (edge_vertex_label st1) edge_label_name
                         (src_label_name, dst_label_name),
                     edge_label_to_index :=
                       map_assign (edge_label_to_index st1) edge_label_name label_id\<rparr>)))"

text \<open>The loop over the sub-sources of one label, and the loop over the labels.\<close>

fun loadEdgeTables_subs :: "'d loader_env \<Rightarrow> int \<Rightarrow> int \<Rightarrow> label_id_t \<Rightarrow> nat \<Rightarrow> string list \<Rightarrow> loader_state \<Rightarrow> (failure + 'd Table list) \<times> loader_state" where
  "loadEdgeTables_subs env index total_parts label_id n [] st = (Inr [], st)"
| "loadEdgeTables_subs env index total_parts label_id n (f # fs) st =
     (case loadEdgeTables_sub env index total_parts label_id n f st of
        (Inl e, st1) \<Rightarrow> (Inl e, st1)
      | (Inr t, st1) \<Rightarrow>
          (case loadEdgeTables_subs env index total_parts label_id n fs st1 of
             (Inl e, st2) \<Rightarrow> (Inl e, st2)
           | (Inr ts, st2) \<Rightarrow> (Inr (t # ts), st2)))"

fun loadEdgeTables_labels :: "'d loader_env \<Rightarrow> int \<Rightarrow> int \<Rightarrow> label_id_t \<Rightarrow> string list \<Rightarrow> loader_state \<Rightarrow> (failure + 'd Table list list) \<times> loader_state" where
  "loadEdgeTables_labels env index total_parts label_id [] st = (Inr [], st)"
| "loadEdgeTables_labels env index total_parts label_id (file # files) st =
     (let sub_label_files = boost_split file in
      case loadEdgeTables_subs env index total_parts label_id (length sub_label_files)
             sub_label_files st of
        (Inl e, st1) \<Rightarrow> (Inl e, st1)
      | (Inr row, st1) \<Rightarrow>
          (case loadEdgeTables_labels env index total_parts (label_id + 1) files st1 of
             (Inl e, st2) \<Rightarrow> (Inl e, st2)
           | (Inr rows, st2) \<Rightarrow> (Inr (row # rows), st2)))"

definition loadEdgeTables :: "'d loader_env \<Rightarrow> loader_state \<Rightarrow> string list \<Rightarrow> int \<Rightarrow> int \<Rightarrow> (failure + 'd Table list list) \<times> loader_state" where
  "loadEdgeTables env st files index total_parts =
     loadEdgeTables_labels env index total_parts 0 files st"

section \<open>loadEVTablesFromEFiles\<close>

text \<open>
  Modelled from the spec: \<open>OidSet\<close> is declared outside the loader. The spec describes
  "a per-vertex-label deduplicating OID set" into which "every endpoint OID is inserted"
  and which is then "converted into a synthetic single-column vertex table". The OID type
  is the default \<open>int64_t\<close>; \<open>BatchInsert\<close> takes the raw value of every slot of every
  chunk and fails on a chunk that is not an int64 array.
\<close>

type_synonym OidSet = "64 word list"

fun OidSet_insert_chunk :: "'d Array \<Rightarrow> OidSet \<Rightarrow> failure + OidSet" where
  "OidSet_insert_chunk (Int64Array slots) s = Inr (fold (\<lambda>slot acc. List.insert (snd slot) acc) slots s)"
| "OidSet_insert_chunk _ s = Inl (ExternalError ''OidSet::BatchInsert'')"

fun BatchInsert :: "'d ChunkedArray \<Rightarrow> OidSet \<Rightarrow> failure + OidSet" where
  "BatchInsert [] s = Inr s"
| "BatchInsert (chunk # chunks) s =
     (case OidSet_insert_chunk chunk s of
        Inl e \<Rightarrow> Inl e
      | Inr s1 \<Rightarrow> BatchInsert chunks s1)"

definition ToArrowArray :: "OidSet \<Rightarrow> 'd Array" where
  "ToArrowArray s = Int64Array (map (\<lambda>oid. (True, oid)) s)"

text \<open>\<open>oids[label_id].BatchInsert(e_table->column(col))\<close>: both index operations are
  unchecked in C++.\<close>

definition insert_endpoints :: "OidSet list \<Rightarrow> label_id_t \<Rightarrow> 'd Table \<Rightarrow> nat \<Rightarrow> failure + OidSet list" where
  "insert_endpoints oids label_id e_table col =
     (if label_id < 0 \<or> int (length oids) \<le> label_id \<or> length (table_columns e_table) \<le> col
      then Inl UndefinedBehaviour
      else case BatchInsert (table_columns e_table ! col) (oids ! nat label_id) of
             Inl e \<Rightarrow> Inl e
           | Inr s \<Rightarrow> Inr (oids[nat label_id := s]))"

text \<open>The first scan of \<open>loadEVTablesFromEFiles\<close>: the vertex label names of all
  sub-sources, taken from the metadata of the location only.\<close>

fun vertex_label_name_set :: "'d loader_env \<Rightarrow> string list \<Rightarrow> string list \<Rightarrow> failure + string list" where
  "vertex_label_name_set env [] s = Inr s"
| "vertex_label_name_set env (sub_efile # rest) s =
     (let meta = GetMeta env (sub_efile @ ''#header_row=true'') in
      case meta SRC_LABEL_TAG of
        None \<Rightarrow> Inl (GSError kIOError ''Metadata of input edge files should contain label name'')
      | Some src_label_name \<Rightarrow>
          (case meta DST_LABEL_TAG of
             None \<Rightarrow> Inl (GSError kIOError ''Metadata of input edge files should contain label name'')
           | Some dst_label_name \<Rightarrow>
               vertex_label_name_set env rest (set_insert dst_label_name (set_insert src_label_name s))))"

text \<open>"number label id": the names of the set, in its order, get 0, 1, 2, ...\<close>

fun number_labels :: "string list \<Rightarrow> label_id_t \<Rightarrow> (string \<times> label_id_t) list \<Rightarrow> (string \<times> label_id_t) list" where
  "number_labels [] v_label_id m = m"
| "number_labels (vertex_name # rest) v_label_id m =
     number_labels rest (v_label_id + 1) (map_assign m vertex_name v_label_id)"

text \<open>The check of the edge label index in the second scan: a new label gets the index
  of its file, a known label must have it already.\<close>

definition check_edge_label_index :: "loader_state \<Rightarrow> string \<Rightarrow> label_id_t \<Rightarrow> failure + loader_state" where
  "check_edge_label_index st edge_label_name e_label_id =
     (case map_of (edge_label_to_index st) edge_label_name of
        None \<Rightarrow>
          Inr (st\<lparr>edge_label_to_index :=
                    map_assign (edge_label_to_index st) edge_label_name e_label_id\<rparr>)
      | Some known_id \<Rightarrow>
          if known_id \<noteq> e_label_id
          then Inl (GSError kInvalidValueError
                 (''Edge label is not consistent, '' @ edge_label_name @ '': '' @
                  to_string e_label_id @ '' vs '' @ to_string known_id))
          else Inr st)"

text \<open>The body of the second scan for one sub-source.\<close>

definition loadEV_sub :: "'d loader_env \<Rightarrow> int \<Rightarrow> int \<Rightarrow> label_id_t \<Rightarrow> nat \<Rightarrow> string \<Rightarrow> OidSet list \<Rightarrow> loader_state \<Rightarrow> (failure + 'd Table \<times> OidSet list) \<times> loader_state" where
  "loadEV_sub env index total_parts e_label_id sub_label_num sub_efile oids st =
     (let location = sub_efile @ ''#header_row=true'' in
      case read_and_normalize env location index total_parts st of
        (Inl e, st1) \<Rightarrow> (Inl e, st1)
      | (Inr normalized_table, st1) \<Rightarrow>
          (case resolve_labels env st1 location of
             Inl e \<Rightarrow> (Inl e, st1)
           | Inr (edge_label_name, (src_label_name, src_label_id),
                  (dst_label_name, dst_label_id)) \<Rightarrow>
               (let e_table = ReplaceSchemaMetadata normalized_table
                                (edge_meta sub_label_num edge_label_name src_label_id dst_label_id);
                    st2 = st1\<lparr>edge_vertex_label :=
                                insert_relation (edge_vertex_label st1) edge_label_name
                                  (src_label_name, dst_label_name)\<rparr>
                in case check_edge_label_index st2 edge_label_name e_label_id of
                     Inl e \<Rightarrow> (Inl e, st2)
                   | Inr st3 \<Rightarrow>
                       (case insert_endpoints oids src_label_id e_table src_column of
                          Inl e \<Rightarrow> (Inl e, st3)
                        | Inr oids1 \<Rightarrow>
                            (case insert_endpoints oids1 dst_label_id e_table dst_column of
                               Inl e \<Rightarrow> (Inl e, st3)
                             | Inr oids2 \<Rightarrow> (Inr (e_table, oids2), st3))))))"

fun loadEV_subs :: "'d loader_env \<Rightarrow> int \<Rightarrow> int \<Rightarrow> label_id_t \<Rightarrow> nat \<Rightarrow> string list \<Rightarrow> OidSet list \<Rightarrow> loader_state \<Rightarrow> (failure + 'd Table list \<times> OidSet list) \<times> loader_state" where
  "loadEV_subs env index total_parts e_label_id n [] oids st = (Inr ([], oids), st)"
| "loadEV_subs env index total_parts e_label_id n (f # fs) oids st =
     (case loadEV_sub env index total_parts e_label_id n f oids st of
        (Inl e, st1) \<Rightarrow> (Inl e, st1)
      | (Inr (t, oids1), st1) \<Rightarrow>
          (case loadEV_subs env index total_parts e_label_id n fs oids1 st1 of
             (Inl e, st2) \<Rightarrow> (Inl e, st2)
           | (Inr (ts, oids2), st2) \<Rightarrow> (Inr (t # ts, oids2), st2)))"

text \<open>The loop \<open>for (e_label_id = 0; e_label_id < edge_label_num_; ++e_label_id)\<close>, on the
  list of its indices; \<open>efiles[e_label_id]\<close> is unchecked.\<close>

fun loadEV_labels :: "'d loader_env \<Rightarrow> int \<Rightarrow> int \<Rightarrow> string list \<Rightarrow> nat list \<Rightarrow> OidSet list \<Rightarrow> loader_state \<Rightarrow> (failure + 'd Table list list \<times> OidSet list) \<times> loader_state" where
  "loadEV_labels env index total_parts efiles [] oids st = (Inr ([], oids), st)"
| "loadEV_labels env index total_parts efiles (e_label_id # ids) oids st =
     (if length efiles \<le> e_label_id then (Inl UndefinedBehaviour, st)
      else let sub_label_files = boost_split (efiles ! e_label_id) in
        case loadEV_subs env index total_parts (int e_label_id) (length sub_label_files)
               sub_label_files oids st of
          (Inl e, st1) \<Rightarrow> (Inl e, st1)
        | (Inr (row, oids1), st1) \<Rightarrow>
            (case loadEV_labels env index total_parts efiles ids oids1 st1 of
               (Inl e, st2) \<Rightarrow> (Inl e, st2)
             | (Inr (rows, oids2), st2) \<Rightarrow> (Inr (row # rows, oids2), st2)))"

text \<open>The synthetic vertex table of one label.\<close>

definition vertex_table :: "nat \<Rightarrow> string \<Rightarrow> OidSet \<Rightarrow> 'd Table" where
  "vertex_table v_label_id label_name oid_set =
     ReplaceSchemaMetadata
       \<lparr>table_schema =
          \<lparr>schema_fields = [\<lparr>field_name = label_name, field_type = int64, field_nullable = True\<rparr>],
           schema_metadata = None\<rparr>,
        table_columns = [[ToArrowArray oid_set]]\<rparr>
       [(''type'', ''VERTEX''),
        (''label_index'', to_string (int v_label_id)),
        (''label'', label_name),
        (ID_COLUMN, to_string (int id_column))]"

definition loadEVTablesFromEFiles :: "'d loader_env \<Rightarrow> loader_state \<Rightarrow> string list \<Rightarrow> int \<Rightarrow> int \<Rightarrow> (failure + 'd Table list \<times> 'd Table list list) \<times> loader_state" where
  "loadEVTablesFromEFiles env st efiles index total_parts =
     (case vertex_label_name_set env (concat (map boost_split efiles)) [] of
        Inl e \<Rightarrow> (Inl e, st)
      | Inr vertex_label_names \<Rightarrow>
          (let st1 = st\<lparr>vertex_label_num := int (length vertex_label_names),
                        vertex_label_to_index :=
                          number_labels vertex_label_names 0 (vertex_label_to_index st)\<rparr>
           in case loadEV_labels env index total_parts efiles [0..<nat (edge_label_num st1)]
                     (replicate (length vertex_label_names) []) st1 of
                (Inl e, st2) \<Rightarrow> (Inl e, st2)
              | (Inr (etables, oids), st2) \<Rightarrow>
                  (Inr (map (\<lambda>v_label_id. vertex_table v_label_id (vertex_label_names ! v_label_id)
                                         (oids ! v_label_id))
                          [0..<length vertex_label_names],
                        etables), st2)))"

section \<open>Sub-sources, endpoint labels and endpoint OIDs\<close>

text \<open>The sub-sources of a list of edge files, in the order the loaders visit them; and
  a sub-source whose location metadata lacks \<open>src_label\<close> or \<open>dst_label\<close>.\<close>

definition sub_sources :: "string list \<Rightarrow> string list" where
  "sub_sources efiles = concat (map boost_split efiles)"


text \<open>
  What the vertex-less mode is expected to compute, in the words of the specification:
  the vertex label names are the source and destination labels of all sub-sources; the
  OIDs of a label are the endpoint OIDs that appear in the source column of every
  scanned sub-source whose source label it is, and in the destination column of every
  scanned sub-source whose destination label it is. What a worker scans of a sub-source
  is the table \<open>ReadTable\<close> gives it for the location of the sub-source; an empty slice
  (no table) holds no OID. The OIDs that appear in a column are the values in the slots
  of its chunks of 64-bit integers (int64 or timestamp).
\<close>

fun slot_oids :: "'d Array \<Rightarrow> 64 word list" where
  "slot_oids (Int64Array slots) = map snd slots"
| "slot_oids (TimestampArray slots) = map snd slots"
| "slot_oids _ = []"

definition read_column_oids :: "'d Table option \<Rightarrow> nat \<Rightarrow> 64 word set" where
  "read_column_oids table col =
     (case table of
        None \<Rightarrow> {}
      | Some t \<Rightarrow> if col < length (table_columns t)
                  then set (concat (map slot_oids (table_columns t ! col))) else {})"

definition src_label_of :: "'d loader_env \<Rightarrow> string \<Rightarrow> string option" where
  "src_label_of env sub_efile = GetMeta env (sub_efile @ ''#header_row=true'') SRC_LABEL_TAG"

definition dst_label_of :: "'d loader_env \<Rightarrow> string \<Rightarrow> string option" where
  "dst_label_of env sub_efile = GetMeta env (sub_efile @ ''#header_row=true'') DST_LABEL_TAG"

definition endpoint_labels :: "'d loader_env \<Rightarrow> string list \<Rightarrow> string set" where
  "endpoint_labels env efiles =
     (\<Union>f\<in>set (sub_sources efiles). set_option (src_label_of env f) \<union> set_option (dst_label_of env f))"

definition scanned_sub_oids :: "'d loader_env \<Rightarrow> int \<Rightarrow> int \<Rightarrow> string \<Rightarrow> string \<Rightarrow> 64 word set" where
  "scanned_sub_oids env index total_parts label_name sub_efile =
     (case ReadTable env (sub_efile @ ''#header_row=true'') index total_parts of
        Inl e \<Rightarrow> {}
      | Inr table \<Rightarrow>
          (if src_label_of env sub_efile = Some label_name
           then read_column_oids table src_column else {}) \<union>
          (if dst_label_of env sub_efile = Some label_name
           then read_column_oids table dst_column else {}))"

definition scanned_oids :: "'d loader_env \<Rightarrow> int \<Rightarrow> int \<Rightarrow> string list \<Rightarrow> string \<Rightarrow> 64 word set" where
  "scanned_oids env index total_parts efiles label_name =
     (\<Union>f\<in>set (sub_sources efiles). scanned_sub_oids env index total_parts label_name f)"

text \<open>
  The OIDs that stand in the edge tables the loader returns: the values of the int64
  chunks of the source and destination columns, by label; the k-th sub-source belongs
  to the k-th edge table returned. \<open>reads_sub\<close> relates a sub-source to an edge table
  returned for it: the sub-source was read, and the two endpoint columns of the edge
  table hold the OIDs that appear in the table read.
\<close>

fun chunk_oids :: "'d Array \<Rightarrow> 64 word list" where
  "chunk_oids (Int64Array slots) = map snd slots"
| "chunk_oids _ = []"

definition column_oids :: "'d Table \<Rightarrow> nat \<Rightarrow> 64 word set" where
  "column_oids t col =
     (if col < length (table_columns t)
      then set (concat (map chunk_oids (table_columns t ! col))) else {})"

definition endpoint_oids :: "'d loader_env \<Rightarrow> string list \<Rightarrow> 'd Table list list \<Rightarrow> string \<Rightarrow> 64 word set" where
  "endpoint_oids env efiles etables label_name =
     (\<Union>ft\<in>set (zip (sub_sources efiles) (concat etables)).
        (if src_label_of env (fst ft) = Some label_name then column_oids (snd ft) src_column else {}) \<union>
        (if dst_label_of env (fst ft) = Some label_name then column_oids (snd ft) dst_column else {}))"

definition reads_sub :: "'d loader_env \<Rightarrow> int \<Rightarrow> int \<Rightarrow> string \<Rightarrow> 'd Table \<Rightarrow> bool" where
  "reads_sub env index total_parts sub_efile e_table =
     (case ReadTable env (sub_efile @ ''#header_row=true'') index total_parts of
        Inl e \<Rightarrow> False
      | Inr table \<Rightarrow>
          column_oids e_table src_column = read_column_oids table src_column \<and>
          column_oids e_table dst_column = read_column_oids table dst_column)"

text \<open>The same contribution by vertex label index, as the second scan adds it for one
  sub-source and for a list of them.\<close>

definition sub_contrib :: "'d loader_env \<Rightarrow> (string \<times> label_id_t) list \<Rightarrow> nat \<Rightarrow> string \<times> 'd Table \<Rightarrow> 64 word set" where
  "sub_contrib env vli j ft =
     (case src_label_of env (fst ft) of
        None \<Rightarrow> {}
      | Some a \<Rightarrow> if map_of vli a = Some (int j) then column_oids (snd ft) src_column else {}) \<union>
     (case dst_label_of env (fst ft) of
        None \<Rightarrow> {}
      | Some b \<Rightarrow> if map_of vli b = Some (int j) then column_oids (snd ft) dst_column else {})"

definition contribs :: "'d loader_env \<Rightarrow> (string \<times> label_id_t) list \<Rightarrow> nat \<Rightarrow> (string \<times> 'd Table) list \<Rightarrow> 64 word set" where
  "contribs env vli j fts = (\<Union>ft\<in>set fts. sub_contrib env vli j ft)"

section \<open>Concrete inputs of the loaders\<close>

text \<open>
  A two-column int64 edge table from pairs of OIDs; the environment of a group of one
  worker, whose locations have the given metadata and tables and whose peers never fail;
  and a loader state with the given vertex labels and edge label count, before any edge
  table is loaded.
\<close>

definition edge_table :: "(int \<times> int) list \<Rightarrow> int Table" where
  "edge_table es =
     \<lparr>table_schema = mk_schema [(''src'', int64), (''dst'', int64)],
      table_columns = [[Int64Array (map (\<lambda>e. (True, word_of_int (fst e))) es)],
                       [Int64Array (map (\<lambda>e. (True, word_of_int (snd e))) es)]]\<rparr>"

definition single_worker_env :: "(string \<times> (string \<times> string) list) list \<Rightarrow> (string \<times> int Table) list \<Rightarrow> int loader_env" where
  "single_worker_env metas tables =
     \<lparr>arrow = exact_rt,
      worker_id = 0,
      GetMeta = (\<lambda>location. case map_of metas location of None \<Rightarrow> Map.empty | Some kvs \<Rightarrow> map_of kvs),
      ReadTable = (\<lambda>location index total_parts.
                     case map_of tables location of
                       None \<Rightarrow> Inl (ExternalError ''Open'')
                     | Some t \<Rightarrow> Inr (Some t)),
      peer_failure = (\<lambda>k. None),
      peer_schemas = (\<lambda>k. [None])\<rparr>"

definition loader_state0 :: "(string \<times> label_id_t) list \<Rightarrow> nat \<Rightarrow> loader_state" where
  "loader_state0 v_labels e_num =
     \<lparr>vertex_label_to_index = v_labels, edge_label_to_index = [], edge_vertex_label = [],
      vertex_label_num = int (length v_labels), edge_label_num = int e_num, collectives = []\<rparr>"

text \<open>Two edge files: "follows" between persons, "likes" from persons to items.\<close>

definition two_files_env :: "int loader_env" where
  "two_files_env = single_worker_env
        [(''e0#header_row=true'', [(''label'', ''follows''), (''src_label'', ''person''), (''dst_label'', ''person'')]),
         (''e1#header_row=true'', [(''label'', ''likes''), (''src_label'', ''person''), (''dst_label'', ''item'')])]
        [(''e0#header_row=true'', edge_table [(10, 20), (20, 30)]),
         (''e1#header_row=true'', edge_table [(10, 7), (30, 7)])]"

section \<open>Two workers of one group\<close>




section \<open>shuffleAndBuild: the PropertyGraphSchema\<close>

text \<open>
  \<open>PropertyGraphSchema\<close> and its entries are declared outside the loader; the model keeps
  what \<open>shuffleAndBuild\<close> puts into them: per vertex label the name, the primary key and
  the properties, per edge label the name, the relations and the properties.
\<close>

record Entry =
  entry_label :: string
  entry_type :: string
  entry_primary_keys :: "string list"
  entry_properties :: "(string \<times> DataType) list"
  entry_relations :: "(string \<times> string) list"

record PropertyGraphSchema =
  schema_fnum :: nat
  vertex_entries :: "Entry list"
  edge_entries :: "Entry list"

text \<open>
  The loop over \<open>vertex_label_to_index_\<close> (and over \<open>edge_label_to_index_\<close>) that fills the
  label list. The test is \<open>pair.second > label_num\<close>; the two vectors have \<open>label_num\<close>
  elements, so an index equal to \<open>label_num\<close>, or a negative one, passes the test and is
  an out-of-range \<open>operator[]\<close>. \<open>kind\<close> is "vertex" or "edge" in the messages.
\<close>

fun label_list_loop :: "string \<Rightarrow> label_id_t \<Rightarrow> (string \<times> label_id_t) list \<Rightarrow> string list \<Rightarrow> bool list \<Rightarrow> failure + string list" where
  "label_list_loop kind label_num [] label_list label_bitset = Inr label_list"
| "label_list_loop kind label_num (pair # rest) label_list label_bitset =
     (if snd pair > label_num
      then Inl (GSError kIOError (''Failed to map '' @ kind @ '' label to index''))
      else if snd pair < 0 \<or> int (length label_bitset) \<le> snd pair
      then Inl UndefinedBehaviour
      else if label_bitset ! nat (snd pair)
      then Inl (GSError kIOError (''Multiple '' @ kind @ '' labels are mapped to one index.''))
      else label_list_loop kind label_num rest
             (label_list[nat (snd pair) := fst pair])
             (label_bitset[nat (snd pair) := True]))"

text \<open>A vector of a negative size cannot be built: the conversion to \<open>size_t\<close> gives a
  length beyond \<open>max_size\<close>, and the constructor throws.\<close>

definition make_label_list :: "string \<Rightarrow> label_id_t \<Rightarrow> (string \<times> label_id_t) list \<Rightarrow> failure + string list" where
  "make_label_list kind label_num label_to_index =
     (if label_num < 0 then Inl (Thrown ''std::length_error'')
      else label_list_loop kind label_num label_to_index
             (replicate (nat label_num) '''') (replicate (nat label_num) False))"

text \<open>The entry of one vertex label: \<open>local_v_tables[v_label]\<close> is unchecked, and so is the
  metadata pointer of the table's schema; \<open>kvs["primary_key"]\<close> is the empty string for a
  missing key.\<close>

definition vertex_entry :: "string \<Rightarrow> 'd Table \<Rightarrow> failure + Entry" where
  "vertex_entry vertex_label table =
     (case schema_metadata (table_schema table) of
        None \<Rightarrow> Inl UndefinedBehaviour
      | Some kvs \<Rightarrow>
          Inr \<lparr>entry_label = vertex_label, entry_type = ''VERTEX'',
               entry_primary_keys = [case map_of kvs ''primary_key'' of None \<Rightarrow> '''' | Some v \<Rightarrow> v],
               entry_properties =
                 map (\<lambda>f. (field_name f, field_type f)) (schema_fields (table_schema table)),
               entry_relations = []\<rparr>)"

fun vertex_entries_loop :: "string list \<Rightarrow> nat \<Rightarrow> 'd Table list \<Rightarrow> failure + Entry list" where
  "vertex_entries_loop [] v_label local_v_tables = Inr []"
| "vertex_entries_loop (vertex_label # rest) v_label local_v_tables =
     (if length local_v_tables \<le> v_label then Inl UndefinedBehaviour
      else case vertex_entry vertex_label (local_v_tables ! v_label) of
             Inl e \<Rightarrow> Inl e
           | Inr entry \<Rightarrow>
               (case vertex_entries_loop rest (v_label + 1) local_v_tables of
                  Inl e \<Rightarrow> Inl e
                | Inr entries \<Rightarrow> Inr (entry # entries)))"

text \<open>The entry of one edge label: \<open>edge_vertex_label_.at(edge_label)\<close> and
  \<open>local_e_tables.at(e_label)\<close> throw \<open>std::out_of_range\<close>, which nothing in
  \<open>shuffleAndBuild\<close> catches; the properties start at column 2.\<close>

fun edge_entries_loop :: "(string \<times> (string \<times> string) list) list \<Rightarrow> string list \<Rightarrow> nat \<Rightarrow> 'd Table list \<Rightarrow> failure + Entry list" where
  "edge_entries_loop evl [] e_label local_e_tables = Inr []"
| "edge_entries_loop evl (edge_label # rest) e_label local_e_tables =
     (case map_of evl edge_label of
        None \<Rightarrow> Inl (Thrown ''map::at'')
      | Some pairs \<Rightarrow>
          if length local_e_tables \<le> e_label then Inl (Thrown ''vector::at'')
          else (case edge_entries_loop evl rest (e_label + 1) local_e_tables of
                  Inl e \<Rightarrow> Inl e
                | Inr entries \<Rightarrow>
                    Inr (\<lparr>entry_label = edge_label, entry_type = ''EDGE'',
                          entry_primary_keys = [],
                          entry_properties =
                            map (\<lambda>f. (field_name f, field_type f))
                              (drop 2 (schema_fields (table_schema (local_e_tables ! e_label)))),
                          entry_relations = pairs\<rparr> # entries)))"

text \<open>The part of \<open>shuffleAndBuild\<close> between the two shuffles and the fragment builder:
  from \<open>PropertyGraphSchema schema;\<close> to the end of the edge block.\<close>

definition shuffleAndBuild_schema :: "nat \<Rightarrow> loader_state \<Rightarrow> 'd Table list \<Rightarrow> 'd Table list \<Rightarrow> failure + PropertyGraphSchema" where
  "shuffleAndBuild_schema fnum st local_v_tables local_e_tables =
     (case make_label_list ''vertex'' (vertex_label_num st) (vertex_label_to_index st) of
        Inl e \<Rightarrow> Inl e
      | Inr vertex_label_list \<Rightarrow>
     (case vertex_entries_loop vertex_label_list 0 local_v_tables of
        Inl e \<Rightarrow> Inl e
      | Inr ventries \<Rightarrow>
     (case make_label_list ''edge'' (edge_label_num st) (edge_label_to_index st) of
        Inl e \<Rightarrow> Inl e
      | Inr edge_label_list \<Rightarrow>
     (case edge_entries_loop (edge_vertex_label st) edge_label_list 0 local_e_tables of
        Inl e \<Rightarrow> Inl e
      | Inr eentries \<Rightarrow>
          Inr \<lparr>schema_fnum = fnum, vertex_entries = ventries, edge_entries = eentries\<rparr>))))"

text \<open>
  A label map conflicts when two labels share an index or an index exceeds the label
  count; it is index-safe when no index is negative or equal to the label count, the two
  cases in which the loop reads out of range.
\<close>

definition conflicting :: "label_id_t \<Rightarrow> (string \<times> label_id_t) list \<Rightarrow> bool" where
  "conflicting label_num m = (\<not> distinct (map snd m) \<or> list_ex (\<lambda>p. label_num < snd p) m)"

definition index_safe :: "label_id_t \<Rightarrow> (string \<times> label_id_t) list \<Rightarrow> bool" where
  "index_safe label_num m = (0 \<le> label_num \<and> list_all (\<lambda>p. 0 \<le> snd p \<and> snd p \<noteq> label_num) m)"

section \<open>constructFragmentGroup\<close>

type_synonym ObjectID = "64 word"
type_synonym InstanceID = "64 word"

text \<open>
  What \<open>constructFragmentGroup\<close> reads of \<open>grape::CommSpec\<close>: the rank of this worker,
  the number of workers, the number of fragments and the worker that holds each fragment.
\<close>

record CommSpec =
  comm_worker_id :: nat
  comm_worker_num :: nat
  comm_fnum :: nat
  FragToWorker :: "nat \<Rightarrow> nat"

text \<open>
  \<open>ArrowFragmentGroup\<close> as its builder fills it: \<open>AddFragmentObject(i, object, instance)\<close>
  registers fragment \<open>i\<close> in a \<open>std::map\<close> keyed by the fragment id.
\<close>

record ArrowFragmentGroup =
  total_frag_num :: nat
  group_vertex_label_num :: label_id_t
  group_edge_label_num :: label_id_t
  group_fragments :: "(nat \<times> ObjectID \<times> InstanceID) list"

text \<open>
  The object store as this function uses it: the sealed group objects, most recent
  first, and the persisted ids. The client assigns \<open>new_object_id\<close> to the sealed group
  and answers \<open>Persist\<close> with an error or with none.
\<close>

record vineyard_store =
  store_objects :: "(ObjectID \<times> ArrowFragmentGroup) list"
  store_persisted :: "ObjectID list"

record vineyard_client =
  instance_id :: InstanceID
  new_object_id :: ObjectID
  Persist :: "ObjectID \<Rightarrow> failure option"

text \<open>How the call ends on one worker: it returns a value, it returns an error, or it
  waits in \<open>MPI_Bcast\<close> for a root that never broadcasts.\<close>

datatype 'a outcome = Returned 'a | Failed failure | Blocked

text \<open>The loop \<open>for (fid_t i = 0; i < comm_spec.fnum(); ++i)\<close> on the list of its indices;
  the two gathered vectors are indexed without a check.\<close>

fun add_fragments :: "CommSpec \<Rightarrow> ObjectID list \<Rightarrow> InstanceID list \<Rightarrow> nat list \<Rightarrow> (nat \<times> ObjectID \<times> InstanceID) list \<Rightarrow> failure + (nat \<times> ObjectID \<times> InstanceID) list" where
  "add_fragments comm_spec gathered_object_ids gathered_instance_ids [] frags = Inr frags"
| "add_fragments comm_spec gathered_object_ids gathered_instance_ids (i # rest) frags =
     (if length gathered_object_ids \<le> FragToWorker comm_spec i \<or>
         length gathered_instance_ids \<le> FragToWorker comm_spec i
      then Inl UndefinedBehaviour
      else add_fragments comm_spec gathered_object_ids gathered_instance_ids rest
             (map_assign frags i
                (gathered_object_ids ! FragToWorker comm_spec i,
                 gathered_instance_ids ! FragToWorker comm_spec i)))"

text \<open>
  \<open>constructFragmentGroup\<close> on one worker, in two parts. First every worker, root or not,
  passes \<open>client.instance_id()\<close> and its \<open>frag_id\<close> to the two \<open>MPI_Gather\<close> calls:
  \<open>gather_send\<close> is that pair.
\<close>

definition gather_send :: "vineyard_client \<Rightarrow> ObjectID \<Rightarrow> InstanceID \<times> ObjectID" where
  "gather_send client frag_id = (instance_id client, frag_id)"

text \<open>
  Then the rest of the call. At the root the two gathered lists are what \<open>MPI_Gather\<close>
  delivered; at another worker \<open>received\<close> is what \<open>MPI_Bcast\<close> delivers, if the root
  broadcasts. The result is the outcome, the value the worker broadcasts (the root only)
  and the store.
\<close>

definition constructFragmentGroup :: "vineyard_client \<Rightarrow> CommSpec \<Rightarrow> label_id_t \<Rightarrow> label_id_t \<Rightarrow> InstanceID list \<Rightarrow> ObjectID list \<Rightarrow> ObjectID option \<Rightarrow> vineyard_store \<Rightarrow> ObjectID outcome \<times> ObjectID option \<times> vineyard_store" where
  "constructFragmentGroup client comm_spec v_label_num e_label_num
       gathered_instance_ids gathered_object_ids received store =
     (if comm_worker_id comm_spec = 0 then
        (case add_fragments comm_spec gathered_object_ids gathered_instance_ids
                [0..<comm_fnum comm_spec] [] of
           Inl e \<Rightarrow> (Failed e, None, store)
         | Inr frags \<Rightarrow>
             (let group_object = \<lparr>total_frag_num = comm_fnum comm_spec,
                                  group_vertex_label_num = v_label_num,
                                  group_edge_label_num = e_label_num,
                                  group_fragments = frags\<rparr>;
                  group_object_id = new_object_id client;
                  store1 = store\<lparr>store_objects := (group_object_id, group_object) # store_objects store\<rparr>
              in case Persist client group_object_id of
                   Some e \<Rightarrow> (Failed e, None, store1)
                 | None \<Rightarrow>
                     (Returned group_object_id, Some group_object_id,
                      store1\<lparr>store_persisted := group_object_id # store_persisted store1\<rparr>)))
      else (case received of
              None \<Rightarrow> (Blocked, None, store)
            | Some group_object_id \<Rightarrow> (Returned group_object_id, None, store)))"

text \<open>
  The group of workers: \<open>workers\<close> holds the client and the fragment id of every worker,
  by rank; the workers share \<open>comm_spec\<close> up to their rank. \<open>MPI_Gather\<close> delivers what
  the workers send to rank 0, in rank order; \<open>MPI_Bcast\<close> delivers the value the root
  broadcasts, if it does, to every other worker. The result is the outcome of every
  worker, by rank, and the store.
\<close>

definition constructFragmentGroup_group :: "(vineyard_client \<times> ObjectID) list \<Rightarrow> CommSpec \<Rightarrow> label_id_t \<Rightarrow> label_id_t \<Rightarrow> vineyard_store \<Rightarrow> ObjectID outcome list \<times> vineyard_store" where
  "constructFragmentGroup_group workers comm_spec v_label_num e_label_num store =
     (case workers of
        [] \<Rightarrow> ([], store)
      | (root_client, root_frag_id) # others \<Rightarrow>
          (let gathered = map (\<lambda>(client, frag_id). gather_send client frag_id) workers in
           case constructFragmentGroup root_client (comm_spec\<lparr>comm_worker_id := 0\<rparr>)
                  v_label_num e_label_num (map fst gathered) (map snd gathered) None store of
             (root_outcome, sent, store1) \<Rightarrow>
               (root_outcome #
                map (\<lambda>(rank, client, frag_id).
                       fst (constructFragmentGroup client (comm_spec\<lparr>comm_worker_id := rank\<rparr>)
                              v_label_num e_label_num [] [] sent store1))
                    (zip [1..<length workers] others),
                store1)))"

text \<open>A client for concrete inputs: its instance id, the id it gives to the sealed group
  and the answer of \<open>Persist\<close>.\<close>

definition example_client :: "InstanceID \<Rightarrow> ObjectID \<Rightarrow> failure option \<Rightarrow> vineyard_client" where
  "example_client inst oid persist_result =
     \<lparr>instance_id = inst, new_object_id = oid, Persist = (\<lambda>id. persist_result)\<rparr>"

definition two_workers :: CommSpec where
  "two_workers = \<lparr>comm_worker_id = 0, comm_worker_num = 2, comm_fnum = 2, FragToWorker = (\<lambda>i. i)\<rparr>"

section \<open>Properties of the widening lattice\<close>

lemma fold_sup_rank_ge: "lattice_rank a \<le> lattice_rank (fold lattice_sup ts a)"
proof (induction ts arbitrary: a)
  case Nil then show ?case by simp
next
  case (Cons x xs)
  have "lattice_rank a \<le> lattice_rank (lattice_sup x a)" by (simp add: lattice_sup_def)
  also have "\<dots> \<le> lattice_rank (fold lattice_sup xs (lattice_sup x a))" by (rule Cons.IH)
  finally show ?case by simp
qed

lemma fold_sup_upper: "t \<in> set ts \<Longrightarrow> lattice_rank t \<le> lattice_rank (fold lattice_sup ts a)"
proof (induction ts arbitrary: a)
  case Nil then show ?case by simp
next
  case (Cons x xs)
  show ?case
  proof (cases "t = x")
    case True
    have "lattice_rank x \<le> lattice_rank (lattice_sup x a)" by (simp add: lattice_sup_def)
    also have "\<dots> \<le> lattice_rank (fold lattice_sup xs (lattice_sup x a))" by (rule fold_sup_rank_ge)
    finally show ?thesis using True by simp
  next
    case False
    with Cons show ?thesis by simp
  qed
qed

lemma fold_sup_mem: "fold lattice_sup ts a \<in> insert a (set ts)"
  by (induction ts arbitrary: a) (auto simp: lattice_sup_def)

lemma lattice_lub_upper: "t \<in> set ts \<Longrightarrow> lattice_rank t \<le> lattice_rank (lattice_lub ts)"
  by (cases ts) (auto simp: lattice_lub_def fold_sup_upper fold_sup_rank_ge)

lemma lattice_lub_mem: "ts \<noteq> [] \<Longrightarrow> lattice_lub ts \<in> set ts"
  using fold_sup_mem [of "tl ts" "hd ts"] by (cases ts) (auto simp: lattice_lub_def)

lemma rank_inj: "in_lattice a \<Longrightarrow> in_lattice b \<Longrightarrow> lattice_rank a = lattice_rank b \<Longrightarrow> a = b"
  by (cases a; cases b) auto

lemma lub_unique:
  assumes "ts \<noteq> []" "list_all in_lattice ts" "r \<in> set ts" "\<forall>t\<in>set ts. lattice_rank t \<le> lattice_rank r"
  shows "lattice_lub ts = r"
proof -
  have m: "lattice_lub ts \<in> set ts" using assms(1) by (rule lattice_lub_mem)
  have "lattice_rank (lattice_lub ts) \<le> lattice_rank r" using assms(4) m by blast
  moreover have "lattice_rank r \<le> lattice_rank (lattice_lub ts)" using assms(3) by (rule lattice_lub_upper)
  ultimately have "lattice_rank (lattice_lub ts) = lattice_rank r" by simp
  moreover have "in_lattice (lattice_lub ts)" "in_lattice r" using m assms(2,3) by (auto simp: list_all_iff)
  ultimately show ?thesis using rank_inj by blast
qed

section \<open>Properties of TypeLoosen\<close>

lemma loosen_type_cases:
  "loosen_type (t # rest) =
     (if t = utf8 then utf8
      else if t = float64 then (if utf8 \<in> set rest then utf8 else float64)
      else if t = int64 \<or> t = timestamp_SECOND
      then (if float64 \<in> set rest then (if utf8 \<in> set rest then utf8 else float64) else int64)
      else t)"
  by (simp add: loosen_type_def Let_def)

lemma loosen_type_lub:
  assumes "ts \<noteq> []" "list_all in_lattice ts"
    and "hd ts = float64 \<or> hd ts = utf8 \<or> float64 \<in> set (tl ts) \<or> utf8 \<notin> set (tl ts)"
  shows "loosen_type ts = lattice_sup int64 (lattice_lub ts)"
proof -
  obtain t rest where ts: "ts = t # rest" using assms(1) by (cases ts) auto
  have il: "in_lattice t" "\<forall>x\<in>set rest. in_lattice x" using assms(2) ts by (auto simp: list_all_iff)
  have c: "t = float64 \<or> t = utf8 \<or> float64 \<in> set rest \<or> utf8 \<notin> set rest" using assms(3) ts by simp
  let ?r = "loosen_type ts"
  have ub: "\<forall>x\<in>set ts. lattice_rank x \<le> lattice_rank ?r"
  proof
    fix x assume "x \<in> set ts"
    then have "in_lattice x" using assms(2) by (auto simp: list_all_iff)
    then show "lattice_rank x \<le> lattice_rank ?r"
      using c \<open>x \<in> set ts\<close> il(1) unfolding ts loosen_type_def
      by (cases x; cases t) (auto simp: Let_def)
  qed
  have mem: "?r = int64 \<and> timestamp_SECOND \<in> set ts \<and> float64 \<notin> set ts \<and> utf8 \<notin> set ts \<or> ?r \<in> set ts"
    using c il(1) unfolding ts loosen_type_def by (cases t) (auto simp: Let_def)
  show ?thesis
  proof (cases "?r \<in> set ts")
    case True
    have "lattice_lub ts = ?r" using assms(1,2) True ub by (rule lub_unique)
    moreover have "lattice_rank int64 \<le> lattice_rank ?r"
      using il(1) unfolding ts loosen_type_def by (cases t) (auto simp: Let_def)
    ultimately show ?thesis by (simp add: lattice_sup_def)
  next
    case False
    with mem have r: "?r = int64" and no: "float64 \<notin> set ts" "utf8 \<notin> set ts" by auto
    have "lattice_rank (lattice_lub ts) \<le> lattice_rank int64"
    proof -
      have m: "lattice_lub ts \<in> set ts" using assms(1) by (rule lattice_lub_mem)
      then have "in_lattice (lattice_lub ts)" using assms(2) by (auto simp: list_all_iff)
      then show ?thesis using m no by (cases "lattice_lub ts") auto
    qed
    moreover have "lattice_lub ts \<noteq> int64" using False r lattice_lub_mem[OF assms(1)] by auto
    moreover have "in_lattice (lattice_lub ts)"
      using lattice_lub_mem[OF assms(1)] assms(2) by (auto simp: list_all_iff)
    ultimately have "lattice_lub ts = timestamp_SECOND" by (cases "lattice_lub ts") auto
    then show ?thesis using r by (simp add: lattice_sup_def)
  qed
qed

lemma loosen_type_int_float:
  assumes "set ts = {int64, float64}" shows "loosen_type ts = float64"
proof -
  obtain t rest where ts: "ts = t # rest" using assms by (cases ts) auto
  have a: "t = int64 \<or> t = float64" "utf8 \<notin> set rest" using assms ts by auto
  have "float64 \<in> set ts" using assms by simp
  then have b: "t = int64 \<Longrightarrow> float64 \<in> set rest" using ts by auto
  show ?thesis using a b unfolding ts loosen_type_cases by auto
qed

lemma loosen_type_ts_int:
  assumes "set ts = {timestamp_SECOND, int64}" shows "loosen_type ts = int64"
proof -
  obtain t rest where ts: "ts = t # rest" using assms by (cases ts) auto
  have a: "t = int64 \<or> t = timestamp_SECOND" "float64 \<notin> set rest" using assms ts by auto
  show ?thesis using a unfolding ts loosen_type_cases by auto
qed

lemma loosen_type_int_float_utf8:
  assumes "set ts = {int64, float64, utf8}" shows "loosen_type ts = utf8"
proof -
  obtain t rest where ts: "ts = t # rest" using assms by (cases ts) auto
  have a: "t = int64 \<or> t = float64 \<or> t = utf8" using assms ts by auto
  have "float64 \<in> set ts" "utf8 \<in> set ts" using assms by simp_all
  then have b: "t \<noteq> float64 \<Longrightarrow> float64 \<in> set rest" "t \<noteq> utf8 \<Longrightarrow> utf8 \<in> set rest"
    using ts by auto
  show ?thesis using a b unfolding ts loosen_type_cases by auto
qed

lemma first_num_fields_non_null:
  "0 < first_num_fields schemas \<Longrightarrow>
     non_null schemas \<noteq> [] \<and> num_fields (hd (non_null schemas)) = first_num_fields schemas"
  by (induction schemas rule: first_num_fields.induct) auto

lemma all_None_first_num_fields:
  "\<forall>s\<in>set schemas. s = None \<Longrightarrow> first_num_fields schemas = 0"
  by (induction schemas rule: first_num_fields.induct) auto

lemma TypeLoosen_Inr_iff:
  "TypeLoosen schemas = Inr R \<longleftrightarrow>
     0 < first_num_fields schemas \<and>
     list_all (\<lambda>s. first_num_fields schemas \<le> num_fields s) (non_null schemas) \<and>
     R = loosened_schema schemas"
proof -
  have "list_ex (\<lambda>s. num_fields s < first_num_fields schemas) (non_null schemas) \<longleftrightarrow>
        \<not> list_all (\<lambda>s. first_num_fields schemas \<le> num_fields s) (non_null schemas)"
    by (auto simp: list_all_iff list_ex_iff not_le)
  then show ?thesis
    by (auto simp: TypeLoosen_def Let_def loosened_schema_def)
qed

lemma loosen_type_not_timestamp: "ts \<noteq> [] \<Longrightarrow> loosen_type ts \<noteq> timestamp_SECOND"
  by (cases ts) (auto simp: loosen_type_cases)

lemma loosen_type_single: "t \<noteq> timestamp_SECOND \<Longrightarrow> loosen_type [t] = t"
  by (simp add: loosen_type_cases)

lemma loosened_schema_length [simp]:
  "length (schema_fields (loosened_schema schemas)) = first_num_fields schemas"
  by (simp add: loosened_schema_def)

lemma loosened_schema_nth:
  "i < first_num_fields schemas \<Longrightarrow>
     schema_fields (loosened_schema schemas) ! i = loosen_field (column_fields (non_null schemas) i)"
  by (simp add: loosened_schema_def)

lemma loosen_field_type [simp]: "field_type (loosen_field fs) = loosen_type (map field_type fs)"
  by (simp add: loosen_field_def WithType_def)

lemma loosen_field_name [simp]: "field_name (loosen_field fs) = field_name (hd fs)"
  by (simp add: loosen_field_def WithType_def)

lemma TypeLoosen_single:
  assumes "0 < num_fields s" "timestamp_SECOND \<notin> field_type ` set (schema_fields s)"
  shows "TypeLoosen [Some s] = Inr (s\<lparr>schema_metadata := None\<rparr>)"
proof -
  have "map (\<lambda>i. loosen_field (column_fields [s] i)) [0..<num_fields s] = schema_fields s"
  proof (rule nth_equalityI)
    show "length (map (\<lambda>i. loosen_field (column_fields [s] i)) [0..<num_fields s]) = length (schema_fields s)"
      by (simp add: num_fields_def)
  next
    fix i assume "i < length (map (\<lambda>i. loosen_field (column_fields [s] i)) [0..<num_fields s])"
    then have i: "i < length (schema_fields s)" by (simp add: num_fields_def)
    then have "field_type (schema_fields s ! i) \<noteq> timestamp_SECOND"
      using assms(2) by (metis image_eqI nth_mem)
    then show "map (\<lambda>i. loosen_field (column_fields [s] i)) [0..<num_fields s] ! i = schema_fields s ! i"
      using i by (simp add: num_fields_def column_fields_def loosen_field_def WithType_def loosen_type_single)
  qed
  then show ?thesis using assms(1)
    by (simp add: TypeLoosen_def Let_def list_ex_iff)
qed

lemma TypeLoosen_idem:
  assumes "TypeLoosen schemas = Inr R"
  shows "TypeLoosen [Some R] = Inr R"
proof -
  from assms have n: "0 < first_num_fields schemas" and R: "R = loosened_schema schemas"
    by (simp_all add: TypeLoosen_Inr_iff)
  have ne: "non_null schemas \<noteq> []" using n first_num_fields_non_null by blast
  have nf: "0 < num_fields R" using n R by (simp add: num_fields_def)
  have "timestamp_SECOND \<notin> field_type ` set (schema_fields R)"
  proof
    assume "timestamp_SECOND \<in> field_type ` set (schema_fields R)"
    then obtain i where "i < first_num_fields schemas"
      and "field_type (schema_fields R ! i) = timestamp_SECOND"
      unfolding R by (auto simp: in_set_conv_nth)
    then show False using ne
      by (simp add: R loosened_schema_nth column_fields_def loosen_type_not_timestamp)
  qed
  with nf have "TypeLoosen [Some R] = Inr (R\<lparr>schema_metadata := None\<rparr>)" by (rule TypeLoosen_single)
  then show ?thesis by (simp add: R loosened_schema_def)
qed

section \<open>Properties of the casts\<close>








lemma empty_array_type [simp]: "array_type (empty_array ty) = ty"
  by (cases ty) simp_all

lemma empty_array_length [simp]: "array_length (empty_array ty) = 0"
  by (cases ty) simp_all







text \<open>The casts keep the length of every column and give every chunk the type of the
  schema field.\<close>

lemma int_to_double_length [simp]: "array_length (int_to_double rt a) = array_length a"
  by (cases a) simp_all

lemma date_to_int_length [simp]: "array_length (date_to_int a) = array_length a"
  by (cases a) simp_all




lemma no_rows:
  "list_all (\<lambda>c. chunked_length c = 0) cols \<Longrightarrow>
     num_rows \<lparr>table_schema = s, table_columns = cols\<rparr> = 0"
  by (cases cols) (simp_all add: num_rows_def)

section \<open>Properties of table acquisition\<close>


lemma sync_gs_error_log:
  "sync_gs_error env r st = (r', st') \<Longrightarrow> st' = st\<lparr>collectives := collectives st @ [Agree]\<rparr>"
  by (auto simp: sync_gs_error_def Let_def split: sum.splits option.splits)

lemma sync_gs_error_Inl: "sync_gs_error env (Inl e) st = (Inl e, st\<lparr>collectives := collectives st @ [Agree]\<rparr>)"
  by (simp add: sync_gs_error_def Let_def)


lemma read_and_normalize_log:
  assumes "read_and_normalize env loc index total_parts st = (r, st')"
  shows "\<exists>cs. st' = st\<lparr>collectives := collectives st @ Agree # cs\<rparr>"
proof -
  obtain r1 st1 where s1: "sync_gs_error env (ReadTable env loc index total_parts) st = (r1, st1)"
    by (cases "sync_gs_error env (ReadTable env loc index total_parts) st") auto
  have st1: "st1 = st\<lparr>collectives := collectives st @ [Agree]\<rparr>" using s1 by (rule sync_gs_error_log)
  show ?thesis
  proof (cases r1)
    case (Inl e)
    then have "st' = st1" using assms s1 by (simp add: read_and_normalize_def)
    then have "st' = st\<lparr>collectives := collectives st @ Agree # []\<rparr>" using st1 by simp
    then show ?thesis by blast
  next
    case (Inr tab)
    obtain r2 st2 where s2: "SyncSchema_comm env tab st1 = (r2, st2)"
      by (cases "SyncSchema_comm env tab st1") auto
    have st2: "st2 = st1\<lparr>collectives := collectives st1 @ [AllGather]\<rparr>"
      using s2 by (auto simp: SyncSchema_comm_def Let_def)
    have "sync_gs_error env r2 st2 = (r, st')"
      using assms s1 Inr s2 by (simp add: read_and_normalize_def)
    from sync_gs_error_log [OF this]
    have "st' = st\<lparr>collectives := collectives st @ Agree # [AllGather, Agree]\<rparr>"
      by (simp add: st1 st2)
    then show ?thesis by blast
  qed
qed









section \<open>Properties of the vertex-less scan\<close>

lemma set_set_insert [simp]: "set (set_insert x s) = insert x (set s)"
  by (induction s) auto

lemma sorted_set_insert: "sorted s \<Longrightarrow> distinct s \<Longrightarrow> sorted (set_insert x s) \<and> distinct (set_insert x s)"
  by (induction s) (auto simp: less_le)

lemma map_of_map_assign [simp]: "map_of (map_assign m k v) = (map_of m)(k \<mapsto> v)"
  by (induction m) (auto simp: fun_upd_twist)

lemma vertex_label_name_set_Inr:
  "vertex_label_name_set env subs s = Inr names \<Longrightarrow>
     set names = set s \<union> (\<Union>f\<in>set subs. set_option (src_label_of env f) \<union> set_option (dst_label_of env f)) \<and>
     (sorted s \<and> distinct s \<longrightarrow> sorted names \<and> distinct names)"
proof (induction subs arbitrary: s)
  case Nil then show ?case by simp
next
  case (Cons f subs)
  from Cons.prems obtain a b where a: "src_label_of env f = Some a" and b: "dst_label_of env f = Some b"
    and rec: "vertex_label_name_set env subs (set_insert b (set_insert a s)) = Inr names"
    by (auto simp: Let_def src_label_of_def dst_label_of_def split: option.splits)
  from Cons.IH [OF rec] show ?case
    using a b sorted_set_insert by (auto simp: sorted_set_insert)
qed

lemma number_labels_other:
  "k \<notin> set names \<Longrightarrow> map_of (number_labels names v m) k = map_of m k"
  by (induction names arbitrary: v m) auto

lemma number_labels_nth:
  "distinct names \<Longrightarrow> i < length names \<Longrightarrow>
     map_of (number_labels names v m) (names ! i) = Some (v + int i)"
proof (induction names arbitrary: v m i)
  case Nil then show ?case by simp
next
  case (Cons n names)
  show ?case
  proof (cases i)
    case 0
    then show ?thesis using Cons.prems by (simp add: number_labels_other)
  next
    case (Suc k)
    then show ?thesis using Cons.prems Cons.IH [of k "v + 1" "map_assign m n v"] by simp
  qed
qed

lemma fold_insert_oids:
  "set (fold (\<lambda>slot acc. List.insert (snd slot) acc) slots s) = set s \<union> snd ` set slots \<and>
   (distinct s \<longrightarrow> distinct (fold (\<lambda>slot acc. List.insert (snd slot) acc) slots s))"
  by (induction slots arbitrary: s) auto

lemma OidSet_insert_chunk_Inr:
  "OidSet_insert_chunk c s = Inr s' \<Longrightarrow>
     set s' = set s \<union> set (chunk_oids c) \<and> (distinct s \<longrightarrow> distinct s')"
  using fold_insert_oids by (cases c) auto

lemma BatchInsert_Inr:
  "BatchInsert chunks s = Inr s' \<Longrightarrow>
     set s' = set s \<union> set (concat (map chunk_oids chunks)) \<and> (distinct s \<longrightarrow> distinct s')"
proof (induction chunks arbitrary: s)
  case Nil then show ?case by simp
next
  case (Cons c chunks)
  from Cons.prems obtain s1 where c: "OidSet_insert_chunk c s = Inr s1"
    and r: "BatchInsert chunks s1 = Inr s'" by (auto split: sum.splits)
  from OidSet_insert_chunk_Inr [OF c] Cons.IH [OF r] show ?case by auto
qed

lemma insert_endpoints_Inr:
  assumes "insert_endpoints oids a t col = Inr oids'"
  shows "length oids' = length oids \<and>
         (\<forall>j<length oids. set (oids' ! j) = set (oids ! j) \<union> (if int j = a then column_oids t col else {})) \<and>
         (\<forall>j<length oids. distinct (oids ! j) \<longrightarrow> distinct (oids' ! j))"
proof -
  from assms have rng: "0 \<le> a" "a < int (length oids)" "col < length (table_columns t)"
    by (auto simp: insert_endpoints_def split: if_splits)
  from assms rng obtain s where b: "BatchInsert (table_columns t ! col) (oids ! nat a) = Inr s"
    and o: "oids' = oids[nat a := s]"
    by (auto simp: insert_endpoints_def split: if_splits sum.splits)
  from BatchInsert_Inr [OF b]
  have s: "set s = set (oids ! nat a) \<union> column_oids t col" "distinct (oids ! nat a) \<longrightarrow> distinct s"
    using rng(3) by (auto simp: column_oids_def)
  have eq: "int j = a \<longleftrightarrow> j = nat a" for j using rng(1) by auto
  show ?thesis
    unfolding o using s rng by (auto simp: nth_list_update eq)
qed

lemma check_edge_label_index_Inr:
  "check_edge_label_index st name eid = Inr st' \<Longrightarrow>
     vertex_label_to_index st' = vertex_label_to_index st \<and> vertex_label_num st' = vertex_label_num st"
  by (auto simp: check_edge_label_index_def split: option.splits if_splits)

lemma read_and_normalize_vertex_labels:
  "read_and_normalize env loc index total_parts st = (r, st') \<Longrightarrow>
     vertex_label_to_index st' = vertex_label_to_index st \<and> vertex_label_num st' = vertex_label_num st"
  using read_and_normalize_log by fastforce

lemma ReplaceSchemaMetadata_columns [simp]:
  "table_columns (ReplaceSchemaMetadata t m) = table_columns t"
  by (simp add: ReplaceSchemaMetadata_def)

lemma column_oids_ReplaceSchemaMetadata [simp]:
  "column_oids (ReplaceSchemaMetadata t m) col = column_oids t col"
  by (simp add: column_oids_def)

lemma resolve_labels_Inr:
  "resolve_labels env st loc = Inr (lab, (a, ia), (b, ib)) \<Longrightarrow>
     GetMeta env loc SRC_LABEL_TAG = Some a \<and> GetMeta env loc DST_LABEL_TAG = Some b \<and>
     map_of (vertex_label_to_index st) a = Some ia \<and> map_of (vertex_label_to_index st) b = Some ib"
  by (auto simp: resolve_labels_def Let_def split: option.splits)

lemma loadEV_sub_Inr:
  assumes "loadEV_sub env index total_parts eid n f oids st = (Inr (t, oids'), st')"
  shows "vertex_label_to_index st' = vertex_label_to_index st \<and>
         vertex_label_num st' = vertex_label_num st \<and>
         length oids' = length oids \<and>
         (\<forall>j<length oids. set (oids' ! j) = set (oids ! j) \<union> sub_contrib env (vertex_label_to_index st) j (f, t)) \<and>
         (\<forall>j<length oids. distinct (oids ! j) \<longrightarrow> distinct (oids' ! j))"
proof -
  let ?loc = "f @ ''#header_row=true''"
  obtain r st1 where rn: "read_and_normalize env ?loc index total_parts st = (r, st1)"
    by (cases "read_and_normalize env ?loc index total_parts st") auto
  note v1 = read_and_normalize_vertex_labels [OF rn]
  from assms rn obtain nt where r: "r = Inr nt"
    by (cases r) (auto simp: loadEV_sub_def Let_def)
  have step1: "(case resolve_labels env st1 ?loc of
             Inl e \<Rightarrow> (Inl e, st1)
           | Inr (lab, (a, ia), (b, ib)) \<Rightarrow>
               (let e_table = ReplaceSchemaMetadata nt (edge_meta n lab ia ib);
                    st2 = st1\<lparr>edge_vertex_label := insert_relation (edge_vertex_label st1) lab (a, b)\<rparr>
                in case check_edge_label_index st2 lab eid of
                     Inl e \<Rightarrow> (Inl e, st2)
                   | Inr st3 \<Rightarrow>
                       (case insert_endpoints oids ia e_table src_column of
                          Inl e \<Rightarrow> (Inl e, st3)
                        | Inr oids1 \<Rightarrow>
                            (case insert_endpoints oids1 ib e_table dst_column of
                               Inl e \<Rightarrow> (Inl e, st3)
                             | Inr oids2 \<Rightarrow> (Inr (e_table, oids2), st3))))) = (Inr (t, oids'), st')"
    using assms unfolding loadEV_sub_def Let_def rn r by simp
  then obtain lab a ia b ib where rl: "resolve_labels env st1 ?loc = Inr (lab, (a, ia), (b, ib))"
    by (cases "resolve_labels env st1 ?loc") auto
  note meta = resolve_labels_Inr [OF rl]
  let ?et = "ReplaceSchemaMetadata nt (edge_meta n lab ia ib)"
  let ?st2 = "st1\<lparr>edge_vertex_label := insert_relation (edge_vertex_label st1) lab (a, b)\<rparr>"
  have step2: "(case check_edge_label_index ?st2 lab eid of
                     Inl e \<Rightarrow> (Inl e, ?st2)
                   | Inr st3 \<Rightarrow>
                       (case insert_endpoints oids ia ?et src_column of
                          Inl e \<Rightarrow> (Inl e, st3)
                        | Inr oids1 \<Rightarrow>
                            (case insert_endpoints oids1 ib ?et dst_column of
                               Inl e \<Rightarrow> (Inl e, st3)
                             | Inr oids2 \<Rightarrow> (Inr (?et, oids2), st3)))) = (Inr (t, oids'), st')"
    using step1 unfolding rl Let_def by simp
  then obtain st3 where chk: "check_edge_label_index ?st2 lab eid = Inr st3"
    by (cases "check_edge_label_index ?st2 lab eid") auto
  have step3: "(case insert_endpoints oids ia ?et src_column of
                          Inl e \<Rightarrow> (Inl e, st3)
                        | Inr oids1 \<Rightarrow>
                            (case insert_endpoints oids1 ib ?et dst_column of
                               Inl e \<Rightarrow> (Inl e, st3)
                             | Inr oids2 \<Rightarrow> (Inr (?et, oids2), st3))) = (Inr (t, oids'), st')"
    using step2 unfolding chk by simp
  then obtain oids1 where i1: "insert_endpoints oids ia ?et src_column = Inr oids1"
    by (cases "insert_endpoints oids ia ?et src_column") auto
  have step4: "(case insert_endpoints oids1 ib ?et dst_column of
                               Inl e \<Rightarrow> (Inl e, st3)
                             | Inr oids2 \<Rightarrow> (Inr (?et, oids2), st3)) = (Inr (t, oids'), st')"
    using step3 unfolding i1 by simp
  then have i2: "insert_endpoints oids1 ib ?et dst_column = Inr oids'" and res: "t = ?et" "st' = st3"
    by (cases "insert_endpoints oids1 ib ?et dst_column"; simp)+
  note v3 = check_edge_label_index_Inr [OF chk]
  note e1 = insert_endpoints_Inr [OF i1]
  note e2 = insert_endpoints_Inr [OF i2]
  have vl: "vertex_label_to_index st' = vertex_label_to_index st" "vertex_label_num st' = vertex_label_num st"
    using v1 v3 res by simp_all
  have len: "length oids' = length oids" using e1 e2 by simp
  have sc: "sub_contrib env (vertex_label_to_index st) j (f, t) =
        (if int j = ia then column_oids nt src_column else {}) \<union>
        (if int j = ib then column_oids nt dst_column else {})" for j
    using meta v1 res by (simp add: sub_contrib_def src_label_of_def dst_label_of_def)
  have sets: "\<forall>j<length oids. set (oids' ! j) = set (oids ! j) \<union> sub_contrib env (vertex_label_to_index st) j (f, t)"
  proof (intro allI impI)
    fix j assume j: "j < length oids"
    then have "set (oids1 ! j) = set (oids ! j) \<union> (if int j = ia then column_oids ?et src_column else {})"
      using e1 by blast
    moreover have "set (oids' ! j) = set (oids1 ! j) \<union> (if int j = ib then column_oids ?et dst_column else {})"
      using e1 e2 j by simp
    ultimately show "set (oids' ! j) = set (oids ! j) \<union> sub_contrib env (vertex_label_to_index st) j (f, t)"
      unfolding sc by auto
  qed
  have dist: "\<forall>j<length oids. distinct (oids ! j) \<longrightarrow> distinct (oids' ! j)"
    using e1 e2 by simp
  show ?thesis using vl len sets dist by blast
qed

lemma contribs_Nil [simp]: "contribs env vli j [] = {}"
  by (simp add: contribs_def)

lemma contribs_Cons [simp]: "contribs env vli j (ft # fts) = sub_contrib env vli j ft \<union> contribs env vli j fts"
  by (simp add: contribs_def)

lemma contribs_append [simp]: "contribs env vli j (xs @ ys) = contribs env vli j xs \<union> contribs env vli j ys"
  by (simp add: contribs_def)

lemma loadEV_subs_Inr:
  "loadEV_subs env index total_parts eid n fs oids st = (Inr (ts, oids'), st') \<Longrightarrow>
     vertex_label_to_index st' = vertex_label_to_index st \<and>
     vertex_label_num st' = vertex_label_num st \<and>
     length ts = length fs \<and> length oids' = length oids \<and>
     (\<forall>j<length oids. set (oids' ! j) = set (oids ! j) \<union> contribs env (vertex_label_to_index st) j (zip fs ts)) \<and>
     (\<forall>j<length oids. distinct (oids ! j) \<longrightarrow> distinct (oids' ! j))"
proof (induction fs arbitrary: oids st ts oids' st')
  case Nil then show ?case by simp
next
  case (Cons f fs)
  obtain r st1 where s: "loadEV_sub env index total_parts eid n f oids st = (r, st1)"
    by (cases "loadEV_sub env index total_parts eid n f oids st") auto
  from Cons.prems s obtain t oids1 where r: "r = Inr (t, oids1)"
    by (cases r) auto
  obtain r2 st2 where s2: "loadEV_subs env index total_parts eid n fs oids1 st1 = (r2, st2)"
    by (cases "loadEV_subs env index total_parts eid n fs oids1 st1") auto
  from Cons.prems s r s2 obtain ts2 where r2: "r2 = Inr (ts2, oids')" and res: "ts = t # ts2" "st' = st2"
    by (cases r2) auto
  note a = loadEV_sub_Inr [OF s [unfolded r]]
  note b = Cons.IH [OF s2 [unfolded r2]]
  have len: "length oids1 = length oids" using a by simp
  have "\<forall>j<length oids. set (oids' ! j) = set (oids ! j) \<union> contribs env (vertex_label_to_index st) j (zip (f # fs) ts)"
  proof (intro allI impI)
    fix j assume j: "j < length oids"
    have "set (oids1 ! j) = set (oids ! j) \<union> sub_contrib env (vertex_label_to_index st) j (f, t)"
      using a j by blast
    moreover have "set (oids' ! j) = set (oids1 ! j) \<union> contribs env (vertex_label_to_index st) j (zip fs ts2)"
      using a b j len by simp
    ultimately show "set (oids' ! j) = set (oids ! j) \<union> contribs env (vertex_label_to_index st) j (zip (f # fs) ts)"
      by (auto simp: res)
  qed
  moreover have "\<forall>j<length oids. distinct (oids ! j) \<longrightarrow> distinct (oids' ! j)"
    using a b len by simp
  ultimately show ?case using a b res by simp
qed

lemma loadEV_labels_Inr:
  "loadEV_labels env index total_parts efiles ids oids st = (Inr (rows, oids'), st') \<Longrightarrow>
     vertex_label_to_index st' = vertex_label_to_index st \<and>
     vertex_label_num st' = vertex_label_num st \<and>
     map length rows = map (\<lambda>i. length (boost_split (efiles ! i))) ids \<and>
     length oids' = length oids \<and>
     (\<forall>j<length oids. set (oids' ! j) = set (oids ! j) \<union>
         contribs env (vertex_label_to_index st) j
           (zip (concat (map (\<lambda>i. boost_split (efiles ! i)) ids)) (concat rows))) \<and>
     (\<forall>j<length oids. distinct (oids ! j) \<longrightarrow> distinct (oids' ! j))"
proof (induction ids arbitrary: oids st rows oids' st')
  case Nil then show ?case by simp
next
  case (Cons i ids)
  let ?subs = "boost_split (efiles ! i)"
  from Cons.prems have inr: "\<not> length efiles \<le> i" by (auto split: if_splits)
  obtain r st1 where s: "loadEV_subs env index total_parts (int i) (length ?subs) ?subs oids st = (r, st1)"
    by (cases "loadEV_subs env index total_parts (int i) (length ?subs) ?subs oids st") auto
  from Cons.prems inr s obtain row oids1 where r: "r = Inr (row, oids1)"
    by (cases r) (auto simp: Let_def)
  obtain r2 st2 where s2: "loadEV_labels env index total_parts efiles ids oids1 st1 = (r2, st2)"
    by (cases "loadEV_labels env index total_parts efiles ids oids1 st1") auto
  from Cons.prems inr s r s2 obtain rows2 where r2: "r2 = Inr (rows2, oids')"
    and res: "rows = row # rows2" "st' = st2"
    by (cases r2) (auto simp: Let_def)
  note a = loadEV_subs_Inr [OF s [unfolded r]]
  note b = Cons.IH [OF s2 [unfolded r2]]
  have len: "length oids1 = length oids" and lrow: "length row = length ?subs" using a by simp_all
  have "\<forall>j<length oids. set (oids' ! j) = set (oids ! j) \<union>
         contribs env (vertex_label_to_index st) j
           (zip (concat (map (\<lambda>i. boost_split (efiles ! i)) (i # ids))) (concat rows))"
  proof (intro allI impI)
    fix j assume j: "j < length oids"
    have "set (oids1 ! j) = set (oids ! j) \<union> contribs env (vertex_label_to_index st) j (zip ?subs row)"
      using a j by blast
    moreover have "set (oids' ! j) = set (oids1 ! j) \<union> contribs env (vertex_label_to_index st) j
           (zip (concat (map (\<lambda>i. boost_split (efiles ! i)) ids)) (concat rows2))"
      using a b j len by simp
    ultimately show "set (oids' ! j) = set (oids ! j) \<union>
         contribs env (vertex_label_to_index st) j
           (zip (concat (map (\<lambda>i. boost_split (efiles ! i)) (i # ids))) (concat rows))"
      using lrow by (auto simp: res)
  qed
  moreover have "\<forall>j<length oids. distinct (oids ! j) \<longrightarrow> distinct (oids' ! j)"
    using a b len by simp
  ultimately show ?case using a b res by simp
qed

lemma number_labels_iff:
  assumes "distinct nm" "a \<in> set nm" "i < length nm"
  shows "map_of (number_labels nm 0 m) a = Some (int i) \<longleftrightarrow> a = nm ! i"
proof -
  from assms(2) obtain k where k: "k < length nm" "a = nm ! k" by (auto simp: in_set_conv_nth)
  have "map_of (number_labels nm 0 m) a = Some (int k)"
    using number_labels_nth [OF assms(1) k(1), of 0 m] k(2) by simp
  moreover have "nm ! k = nm ! i \<longleftrightarrow> k = i"
    using assms(1,3) k(1) by (simp add: nth_eq_iff_index_eq)
  ultimately show ?thesis using k(2) by auto
qed

lemma sub_contrib_numbered:
  assumes "distinct nm" "i < length nm"
    and "set_option (src_label_of env (fst ft)) \<union> set_option (dst_label_of env (fst ft)) \<subseteq> set nm"
  shows "sub_contrib env (number_labels nm 0 m) i ft =
           (if src_label_of env (fst ft) = Some (nm ! i) then column_oids (snd ft) src_column else {}) \<union>
           (if dst_label_of env (fst ft) = Some (nm ! i) then column_oids (snd ft) dst_column else {})"
proof -
  have s: "(case src_label_of env (fst ft) of None \<Rightarrow> {}
            | Some a \<Rightarrow> if map_of (number_labels nm 0 m) a = Some (int i)
                        then column_oids (snd ft) src_column else {}) =
           (if src_label_of env (fst ft) = Some (nm ! i) then column_oids (snd ft) src_column else {})"
  proof (cases "src_label_of env (fst ft)")
    case None then show ?thesis by simp
  next
    case (Some a)
    then have "a \<in> set nm" using assms(3) by auto
    from number_labels_iff [OF assms(1) this assms(2), of m] Some show ?thesis by auto
  qed
  have d: "(case dst_label_of env (fst ft) of None \<Rightarrow> {}
            | Some a \<Rightarrow> if map_of (number_labels nm 0 m) a = Some (int i)
                        then column_oids (snd ft) dst_column else {}) =
           (if dst_label_of env (fst ft) = Some (nm ! i) then column_oids (snd ft) dst_column else {})"
  proof (cases "dst_label_of env (fst ft)")
    case None then show ?thesis by simp
  next
    case (Some a)
    then have "a \<in> set nm" using assms(3) by auto
    from number_labels_iff [OF assms(1) this assms(2), of m] Some show ?thesis by auto
  qed
  show ?thesis unfolding sub_contrib_def s d ..
qed

section \<open>The edge tables returned and the tables read\<close>

lemma sync_gs_error_Inr:
  "sync_gs_error env r st = (Inr v, st') \<Longrightarrow> r = Inr v"
  by (auto simp: sync_gs_error_def Let_def split: sum.splits option.splits)

lemma read_and_normalize_read:
  assumes "read_and_normalize env loc index total_parts st = (Inr nt, st')"
  shows "\<exists>table schemas. ReadTable env loc index total_parts = Inr table \<and>
           SyncSchema (arrow env) table schemas = Inr nt"
proof -
  obtain r1 st1 where s1: "sync_gs_error env (ReadTable env loc index total_parts) st = (r1, st1)"
    by (cases "sync_gs_error env (ReadTable env loc index total_parts) st") auto
  from assms s1 obtain tab where r1: "r1 = Inr tab"
    by (cases r1) (auto simp: read_and_normalize_def)
  have rd: "ReadTable env loc index total_parts = Inr tab"
    using s1 [unfolded r1] by (rule sync_gs_error_Inr)
  obtain r2 st2 where s2: "SyncSchema_comm env tab st1 = (r2, st2)"
    by (cases "SyncSchema_comm env tab st1") auto
  have "sync_gs_error env r2 st2 = (Inr nt, st')"
    using assms s1 r1 s2 by (simp add: read_and_normalize_def)
  then have "r2 = Inr nt" by (rule sync_gs_error_Inr)
  then have "\<exists>schemas. SyncSchema (arrow env) tab schemas = Inr nt"
    using s2 by (auto simp: SyncSchema_comm_def Let_def)
  with rd show ?thesis by blast
qed

lemma BatchInsert_int64:
  "BatchInsert chunks s = Inr s' \<Longrightarrow> list_all (\<lambda>a. array_type a = int64) chunks"
proof (induction chunks arbitrary: s)
  case Nil then show ?case by simp
next
  case (Cons c chunks)
  from Cons.prems obtain s1 where c: "OidSet_insert_chunk c s = Inr s1"
    and r: "BatchInsert chunks s1 = Inr s'" by (auto split: sum.splits)
  have "array_type c = int64" using c by (cases c) simp_all
  with Cons.IH [OF r] show ?case by simp
qed

lemma int64_chunk_oids:
  "list_all (\<lambda>a. array_type a = int64) col \<Longrightarrow> map chunk_oids col = map slot_oids col"
proof (induction col)
  case Nil then show ?case by simp
next
  case (Cons a col)
  then have "chunk_oids a = slot_oids a" by (cases a) simp_all
  with Cons show ?case by simp
qed

lemma cast_chunks_oids:
  "cast_chunks rt from_type to_type col = Inr c \<Longrightarrow> list_all (\<lambda>a. array_type a = int64) c \<Longrightarrow>
     map chunk_oids c = map slot_oids col"
proof (induction col arbitrary: c)
  case Nil then show ?case by simp
next
  case (Cons a col)
  show ?case
  proof (cases "from_type = int64 \<and> to_type = float64")
    case True
    with Cons.prems(1) obtain b bs where b: "CastIntToDouble rt a to_type = Inr b"
      and c: "c = b # bs" by (auto split: sum.splits)
    have "array_type b = float64"
      using b by (cases a) (auto simp: CastIntToDouble_def split: if_splits)
    with Cons.prems(2) c show ?thesis by simp
  next
    case False
    with Cons.prems(1) have ti: "from_type = timestamp_SECOND \<and> to_type = int64"
      by (auto split: if_splits)
    with False Cons.prems(1) obtain b bs where b: "CastDateToInt a to_type = Inr b"
      and bs: "cast_chunks rt from_type to_type col = Inr bs" and c: "c = b # bs"
      by (auto split: sum.splits)
    have "chunk_oids b = slot_oids a"
      using b by (cases a) (auto simp: CastDateToInt_def split: if_splits)
    moreover have "map chunk_oids bs = map slot_oids col"
      using Cons.IH [OF bs] Cons.prems(2) c by simp
    ultimately show ?thesis using c by simp
  qed
qed

lemma cast_columns_oids:
  "cast_columns rt triples = Inr cols \<Longrightarrow>
     length cols = length triples \<and>
     (\<forall>i<length cols. list_all (\<lambda>a. array_type a = int64) (cols ! i) \<longrightarrow>
        map chunk_oids (cols ! i) = map slot_oids (fst (snd (triples ! i))))"
proof (induction triples arbitrary: cols)
  case Nil then show ?case by simp
next
  case (Cons tr triples)
  obtain tf col sf where tr: "tr = (tf, col, sf)" by (cases tr) auto
  from Cons.prems obtain c cs where
    c: "(if field_type tf \<noteq> field_type sf
         then cast_chunks rt (field_type tf) (field_type sf) col else Inr col) = Inr c"
    and cs: "cast_columns rt triples = Inr cs" and cols: "cols = c # cs"
    unfolding tr by (auto split: sum.splits)
  have hd: "map chunk_oids c = map slot_oids col" if "list_all (\<lambda>a. array_type a = int64) c"
  proof (cases "field_type tf \<noteq> field_type sf")
    case True
    with c have "cast_chunks rt (field_type tf) (field_type sf) col = Inr c" by simp
    from cast_chunks_oids [OF this that] show ?thesis .
  next
    case False
    with c have "c = col" by simp
    with that show ?thesis by (simp add: int64_chunk_oids)
  qed
  note ih = Cons.IH [OF cs]
  have "map chunk_oids (cols ! i) = map slot_oids (fst (snd ((tr # triples) ! i)))"
    if "i < length cols" and "list_all (\<lambda>a. array_type a = int64) (cols ! i)" for i
  proof (cases i)
    case 0
    with that hd show ?thesis by (simp add: cols tr)
  next
    case (Suc k)
    with that ih show ?thesis by (simp add: cols)
  qed
  with ih show ?case by (simp add: cols)
qed

lemma empty_array_oids [simp]: "chunk_oids (empty_array ty) = []"
  by (cases ty) simp_all

lemma SyncSchema_column_oids:
  assumes "SyncSchema rt table schemas = Inr nt"
    and "col < length (table_columns nt)"
    and "list_all (\<lambda>a. array_type a = int64) (table_columns nt ! col)"
  shows "column_oids nt col = read_column_oids table col"
proof -
  from assms(1) obtain R where R: "TypeLoosen schemas = Inr R"
    by (cases "TypeLoosen schemas") (auto simp: SyncSchema_def)
  show ?thesis
  proof (cases table)
    case None
    then have nt: "nt = \<lparr>table_schema = R,
                         table_columns = map (\<lambda>f. [empty_array (field_type f)]) (schema_fields R)\<rparr>"
      using assms(1) R by (simp add: SyncSchema_def EmptyTableBuilder_Build_def)
    show ?thesis using assms(2) None unfolding nt
      by (simp add: column_oids_def read_column_oids_def)
  next
    case (Some t)
    then have c: "CastTableToSchema rt t R = Inr nt"
      using assms(1) R by (simp add: SyncSchema_def)
    show ?thesis
    proof (cases "Schema_Equals rt (table_schema t) R")
      case True
      with c have "nt = t" by (simp add: CastTableToSchema_def)
      then show ?thesis using assms(2,3) Some
        by (simp add: column_oids_def read_column_oids_def int64_chunk_oids)
    next
      case False
      with c obtain cols where cc: "cast_columns rt (column_triples t R) = Inr cols"
        and nt: "nt = \<lparr>table_schema = R, table_columns = cols\<rparr>"
        by (auto simp: CastTableToSchema_def split: if_splits sum.splits)
      note co = cast_columns_oids [OF cc]
      have i: "col < length (column_triples t R)" using co assms(2) nt by simp
      then have lt: "col < length (table_columns t)" by (simp add: column_triples_def)
      have "fst (snd (column_triples t R ! col)) = table_columns t ! col"
        using i by (simp add: column_triples_def)
      then have "map chunk_oids (cols ! col) = map slot_oids (table_columns t ! col)"
        using co assms(2,3) nt by simp
      then show ?thesis using assms(2) lt Some nt
        by (simp add: column_oids_def read_column_oids_def)
    qed
  qed
qed

lemma insert_endpoints_int64:
  assumes "insert_endpoints oids a t col = Inr oids'"
  shows "col < length (table_columns t) \<and>
         list_all (\<lambda>a. array_type a = int64) (table_columns t ! col)"
proof -
  from assms have rng: "col < length (table_columns t)"
    by (auto simp: insert_endpoints_def split: if_splits)
  from assms rng obtain s where "BatchInsert (table_columns t ! col) (oids ! nat a) = Inr s"
    by (auto simp: insert_endpoints_def split: if_splits sum.splits)
  from BatchInsert_int64 [OF this] rng show ?thesis by simp
qed

lemma loadEV_sub_reads:
  assumes "loadEV_sub env index total_parts eid n f oids st = (Inr (t, oids'), st')"
  shows "reads_sub env index total_parts f t"
proof -
  let ?loc = "f @ ''#header_row=true''"
  obtain r st1 where rn: "read_and_normalize env ?loc index total_parts st = (r, st1)"
    by (cases "read_and_normalize env ?loc index total_parts st") auto
  from assms rn obtain nt where r: "r = Inr nt"
    by (cases r) (auto simp: loadEV_sub_def Let_def)
  have step1: "(case resolve_labels env st1 ?loc of
             Inl e \<Rightarrow> (Inl e, st1)
           | Inr (lab, (a, ia), (b, ib)) \<Rightarrow>
               (let e_table = ReplaceSchemaMetadata nt (edge_meta n lab ia ib);
                    st2 = st1\<lparr>edge_vertex_label := insert_relation (edge_vertex_label st1) lab (a, b)\<rparr>
                in case check_edge_label_index st2 lab eid of
                     Inl e \<Rightarrow> (Inl e, st2)
                   | Inr st3 \<Rightarrow>
                       (case insert_endpoints oids ia e_table src_column of
                          Inl e \<Rightarrow> (Inl e, st3)
                        | Inr oids1 \<Rightarrow>
                            (case insert_endpoints oids1 ib e_table dst_column of
                               Inl e \<Rightarrow> (Inl e, st3)
                             | Inr oids2 \<Rightarrow> (Inr (e_table, oids2), st3))))) = (Inr (t, oids'), st')"
    using assms unfolding loadEV_sub_def Let_def rn r by simp
  then obtain lab a ia b ib where rl: "resolve_labels env st1 ?loc = Inr (lab, (a, ia), (b, ib))"
    by (cases "resolve_labels env st1 ?loc") auto
  let ?et = "ReplaceSchemaMetadata nt (edge_meta n lab ia ib)"
  let ?st2 = "st1\<lparr>edge_vertex_label := insert_relation (edge_vertex_label st1) lab (a, b)\<rparr>"
  have step2: "(case check_edge_label_index ?st2 lab eid of
                     Inl e \<Rightarrow> (Inl e, ?st2)
                   | Inr st3 \<Rightarrow>
                       (case insert_endpoints oids ia ?et src_column of
                          Inl e \<Rightarrow> (Inl e, st3)
                        | Inr oids1 \<Rightarrow>
                            (case insert_endpoints oids1 ib ?et dst_column of
                               Inl e \<Rightarrow> (Inl e, st3)
                             | Inr oids2 \<Rightarrow> (Inr (?et, oids2), st3)))) = (Inr (t, oids'), st')"
    using step1 unfolding rl Let_def by simp
  then obtain st3 where chk: "check_edge_label_index ?st2 lab eid = Inr st3"
    by (cases "check_edge_label_index ?st2 lab eid") auto
  have step3: "(case insert_endpoints oids ia ?et src_column of
                          Inl e \<Rightarrow> (Inl e, st3)
                        | Inr oids1 \<Rightarrow>
                            (case insert_endpoints oids1 ib ?et dst_column of
                               Inl e \<Rightarrow> (Inl e, st3)
                             | Inr oids2 \<Rightarrow> (Inr (?et, oids2), st3))) = (Inr (t, oids'), st')"
    using step2 unfolding chk by simp
  then obtain oids1 where i1: "insert_endpoints oids ia ?et src_column = Inr oids1"
    by (cases "insert_endpoints oids ia ?et src_column") auto
  have step4: "(case insert_endpoints oids1 ib ?et dst_column of
                               Inl e \<Rightarrow> (Inl e, st3)
                             | Inr oids2 \<Rightarrow> (Inr (?et, oids2), st3)) = (Inr (t, oids'), st')"
    using step3 unfolding i1 by simp
  then have i2: "insert_endpoints oids1 ib ?et dst_column = Inr oids'" and res: "t = ?et"
    by (cases "insert_endpoints oids1 ib ?et dst_column"; simp)+
  from read_and_normalize_read [OF rn [unfolded r]] obtain table schemas where
    rd: "ReadTable env ?loc index total_parts = Inr table"
    and sy: "SyncSchema (arrow env) table schemas = Inr nt" by blast
  have c1: "src_column < length (table_columns nt)"
      "list_all (\<lambda>a. array_type a = int64) (table_columns nt ! src_column)"
    using insert_endpoints_int64 [OF i1] by simp_all
  have c2: "dst_column < length (table_columns nt)"
      "list_all (\<lambda>a. array_type a = int64) (table_columns nt ! dst_column)"
    using insert_endpoints_int64 [OF i2] by simp_all
  have "column_oids t src_column = read_column_oids table src_column"
    unfolding res using SyncSchema_column_oids [OF sy c1] by simp
  moreover have "column_oids t dst_column = read_column_oids table dst_column"
    unfolding res using SyncSchema_column_oids [OF sy c2] by simp
  ultimately show ?thesis using rd by (simp add: reads_sub_def)
qed

lemma loadEV_subs_reads:
  "loadEV_subs env index total_parts eid n fs oids st = (Inr (ts, oids'), st') \<Longrightarrow>
     list_all2 (reads_sub env index total_parts) fs ts"
proof (induction fs arbitrary: oids st ts oids' st')
  case Nil then show ?case by simp
next
  case (Cons f fs)
  obtain r st1 where s: "loadEV_sub env index total_parts eid n f oids st = (r, st1)"
    by (cases "loadEV_sub env index total_parts eid n f oids st") auto
  from Cons.prems s obtain t oids1 where r: "r = Inr (t, oids1)"
    by (cases r) auto
  obtain r2 st2 where s2: "loadEV_subs env index total_parts eid n fs oids1 st1 = (r2, st2)"
    by (cases "loadEV_subs env index total_parts eid n fs oids1 st1") auto
  from Cons.prems s r s2 obtain ts2 where r2: "r2 = Inr (ts2, oids')" and res: "ts = t # ts2"
    by (cases r2) auto
  from loadEV_sub_reads [OF s [unfolded r]] Cons.IH [OF s2 [unfolded r2]]
  show ?case by (simp add: res)
qed

lemma loadEV_labels_reads:
  "loadEV_labels env index total_parts efiles ids oids st = (Inr (rows, oids'), st') \<Longrightarrow>
     list_all2 (reads_sub env index total_parts)
       (concat (map (\<lambda>i. boost_split (efiles ! i)) ids)) (concat rows)"
proof (induction ids arbitrary: oids st rows oids' st')
  case Nil then show ?case by simp
next
  case (Cons i ids)
  let ?subs = "boost_split (efiles ! i)"
  from Cons.prems have inr: "\<not> length efiles \<le> i" by (auto split: if_splits)
  obtain r st1 where s: "loadEV_subs env index total_parts (int i) (length ?subs) ?subs oids st = (r, st1)"
    by (cases "loadEV_subs env index total_parts (int i) (length ?subs) ?subs oids st") auto
  from Cons.prems inr s obtain row oids1 where r: "r = Inr (row, oids1)"
    by (cases r) (auto simp: Let_def)
  obtain r2 st2 where s2: "loadEV_labels env index total_parts efiles ids oids1 st1 = (r2, st2)"
    by (cases "loadEV_labels env index total_parts efiles ids oids1 st1") auto
  from Cons.prems inr s r s2 obtain rows2 where r2: "r2 = Inr (rows2, oids')"
    and res: "rows = row # rows2"
    by (cases r2) (auto simp: Let_def)
  from loadEV_subs_reads [OF s [unfolded r]] Cons.IH [OF s2 [unfolded r2]]
  show ?case by (simp add: res list_all2_appendI)
qed

text \<open>When every edge table returned belongs to the sub-source read for it, the OIDs in
  the edge tables are the OIDs scanned.\<close>

lemma endpoint_oids_scanned:
  assumes "list_all2 (reads_sub env index total_parts) (sub_sources efiles) (concat etables)"
  shows "endpoint_oids env efiles etables label_name =
           scanned_oids env index total_parts efiles label_name"
proof -
  let ?fs = "sub_sources efiles" and ?ts = "concat etables"
  let ?g = "\<lambda>ft. (if src_label_of env (fst ft) = Some label_name then column_oids (snd ft) src_column else {}) \<union>
        (if dst_label_of env (fst ft) = Some label_name then column_oids (snd ft) dst_column else {})"
  have len: "length ?fs = length ?ts" using assms by (rule list_all2_lengthD)
  have eq: "?g ft = scanned_sub_oids env index total_parts label_name (fst ft)"
    if "ft \<in> set (zip ?fs ?ts)" for ft
  proof -
    have "reads_sub env index total_parts (fst ft) (snd ft)"
      using assms that by (auto simp: list_all2_iff)
    then show ?thesis
      by (auto simp: reads_sub_def scanned_sub_oids_def split: sum.splits)
  qed
  have "endpoint_oids env efiles etables label_name =
          (\<Union>ft\<in>set (zip ?fs ?ts). scanned_sub_oids env index total_parts label_name (fst ft))"
    unfolding endpoint_oids_def using eq by (intro SUP_cong refl) 
  also have "\<dots> = (\<Union>f\<in>fst ` set (zip ?fs ?ts). scanned_sub_oids env index total_parts label_name f)"
    by simp
  also have "fst ` set (zip ?fs ?ts) = set ?fs"
    using len by (metis map_fst_zip set_map)
  finally show ?thesis by (simp add: scanned_oids_def)
qed

section \<open>Two workers take the same collective steps\<close>








section \<open>Properties of the label lists\<close>

lemma label_list_loop_char:
  assumes "0 \<le> num" "length bitset = nat num"
    and "list_all (\<lambda>p. 0 \<le> snd p \<and> snd p \<noteq> num) m"
  shows "if \<not> distinct (map snd m) \<or> list_ex (\<lambda>p. num < snd p) m \<or>
            list_ex (\<lambda>p. snd p < num \<and> bitset ! nat (snd p)) m
         then \<exists>msg. label_list_loop kind num m label_list bitset = Inl (GSError kIOError msg)
         else \<exists>l. label_list_loop kind num m label_list bitset = Inr l"
  using assms
proof (induction m arbitrary: label_list bitset)
  case Nil then show ?case by simp
next
  case (Cons p m)
  have p: "0 \<le> snd p" "snd p \<noteq> num" and rest: "list_all (\<lambda>p. 0 \<le> snd p \<and> snd p \<noteq> num) m"
    using Cons.prems(3) by simp_all
  show ?case
  proof (cases "num < snd p")
    case True then show ?thesis by simp
  next
    case False
    with p have lt: "snd p < num" by simp
    then have inr: "\<not> (snd p < 0 \<or> int (length bitset) \<le> snd p)"
      using p Cons.prems(1,2) by simp
    show ?thesis
    proof (cases "bitset ! nat (snd p)")
      case True then show ?thesis using False inr lt by simp
    next
      case nb: False
      let ?b = "bitset[nat (snd p) := True]"
      have len: "length ?b = nat num" using Cons.prems(2) by simp
      note IH = Cons.IH [OF Cons.prems(1) len rest, of "label_list[nat (snd p) := fst p]"]
      have step: "label_list_loop kind num (p # m) label_list bitset =
                  label_list_loop kind num m (label_list[nat (snd p) := fst p]) ?b"
        using False inr nb by simp
      have nth: "?b ! nat (snd q) \<longleftrightarrow> snd q = snd p \<or> bitset ! nat (snd q)"
        if "q \<in> set m" "snd q < num" for q
      proof -
        have "0 \<le> snd q" using rest that(1) by (auto simp: list_all_iff)
        then have "nat (snd q) = nat (snd p) \<longleftrightarrow> snd q = snd p" using p(1) by auto
        moreover have "nat (snd q) < length bitset" using that(2) \<open>0 \<le> snd q\<close> Cons.prems(2) by auto
        ultimately show ?thesis by (auto simp: nth_list_update)
      qed
      have "(\<exists>q\<in>set m. snd q < num \<and> ?b ! nat (snd q)) \<longleftrightarrow>
            (\<exists>q\<in>set m. snd q < num \<and> (snd q = snd p \<or> bitset ! nat (snd q)))"
        using nth by blast
      also have "\<dots> \<longleftrightarrow> (\<exists>q\<in>set m. snd q = snd p) \<or>
                          (\<exists>q\<in>set m. snd q < num \<and> bitset ! nat (snd q))"
      proof -
        have "snd q = snd p \<Longrightarrow> snd q < num" for q :: "string \<times> int" using lt by simp
        then show ?thesis by blast
      qed
      also have "(\<exists>q\<in>set m. snd q = snd p) \<longleftrightarrow> snd p \<in> snd ` set m"
        by (metis image_iff)
      finally have c: "list_ex (\<lambda>q. snd q < num \<and> ?b ! nat (snd q)) m \<longleftrightarrow>
            snd p \<in> snd ` set m \<or> list_ex (\<lambda>q. snd q < num \<and> bitset ! nat (snd q)) m"
        by (simp add: list_ex_iff)
      have eq: "(\<not> distinct (map snd m) \<or> list_ex (\<lambda>p. num < snd p) m \<or>
                 list_ex (\<lambda>q. snd q < num \<and> ?b ! nat (snd q)) m) \<longleftrightarrow>
                (\<not> distinct (map snd (p # m)) \<or> list_ex (\<lambda>p. num < snd p) (p # m) \<or>
                 list_ex (\<lambda>q. snd q < num \<and> bitset ! nat (snd q)) (p # m))"
        unfolding c using False nb by auto
      show ?thesis using IH unfolding step eq .
    qed
  qed
qed

lemma make_label_list_conflict:
  assumes "index_safe num m"
  shows "if conflicting num m
         then \<exists>msg. make_label_list kind num m = Inl (GSError kIOError msg)
         else \<exists>l. make_label_list kind num m = Inr l"
proof -
  from assms have n: "0 \<le> num" and s: "list_all (\<lambda>p. 0 \<le> snd p \<and> snd p \<noteq> num) m"
    by (simp_all add: index_safe_def)
  have "\<not> list_ex (\<lambda>p. snd p < num \<and> replicate (nat num) False ! nat (snd p)) m"
    using s by (auto simp: list_ex_iff list_all_iff)
  with label_list_loop_char [OF n _ s, of "replicate (nat num) False" kind "replicate (nat num) ''''"]
  show ?thesis using n by (simp add: make_label_list_def conflicting_def)
qed

section \<open>Properties of the fragment group\<close>


lemma add_fragments_ok:
  assumes "\<forall>i\<in>set idx. FragToWorker cs i < length objs \<and> FragToWorker cs i < length insts"
  shows "\<exists>frags'. add_fragments cs objs insts idx frags = Inr frags' \<and>
           (\<forall>i. map_of frags' i =
                 (if i \<in> set idx then Some (objs ! FragToWorker cs i, insts ! FragToWorker cs i)
                  else map_of frags i))"
  using assms
proof (induction idx arbitrary: frags)
  case Nil then show ?case by simp
next
  case (Cons k idx)
  let ?f = "map_assign frags k (objs ! FragToWorker cs k, insts ! FragToWorker cs k)"
  from Cons.prems have k: "FragToWorker cs k < length objs" "FragToWorker cs k < length insts"
    and rest: "\<forall>i\<in>set idx. FragToWorker cs i < length objs \<and> FragToWorker cs i < length insts"
    by simp_all
  from Cons.IH [OF rest, of ?f] obtain frags' where
    r: "add_fragments cs objs insts idx ?f = Inr frags'"
    and m: "\<forall>i. map_of frags' i =
                 (if i \<in> set idx then Some (objs ! FragToWorker cs i, insts ! FragToWorker cs i)
                  else map_of ?f i)" by blast
  have "add_fragments cs objs insts (k # idx) frags = Inr frags'" using k r by simp
  moreover have "\<forall>i. map_of frags' i =
                 (if i \<in> set (k # idx) then Some (objs ! FragToWorker cs i, insts ! FragToWorker cs i)
                  else map_of frags i)"
    using m by auto
  ultimately show ?case by blast
qed

text \<open>The registry the root builds from what the gather delivers.\<close>

lemma gathered_fragments:
  assumes "\<forall>i<comm_fnum cs. FragToWorker cs i < length workers"
  shows "\<exists>frags.
           add_fragments (cs\<lparr>comm_worker_id := 0\<rparr>)
             (map snd (map (\<lambda>(client, frag_id). gather_send client frag_id) workers))
             (map fst (map (\<lambda>(client, frag_id). gather_send client frag_id) workers))
             [0..<comm_fnum cs] [] = Inr frags \<and>
           (\<forall>i<comm_fnum cs. map_of frags i =
              Some (snd (workers ! FragToWorker cs i),
                    instance_id (fst (workers ! FragToWorker cs i))))"
proof -
  let ?cs0 = "cs\<lparr>comm_worker_id := 0\<rparr>"
  let ?g = "map (\<lambda>(client, frag_id). gather_send client frag_id) workers"
  have rng: "\<forall>i\<in>set [0..<comm_fnum cs].
               FragToWorker ?cs0 i < length (map snd ?g) \<and>
               FragToWorker ?cs0 i < length (map fst ?g)"
    using assms by simp
  from add_fragments_ok [OF rng, of "[]"] obtain frags where
    af: "add_fragments ?cs0 (map snd ?g) (map fst ?g) [0..<comm_fnum cs] [] = Inr frags"
    and fm: "\<forall>i. map_of frags i =
                 (if i \<in> set [0..<comm_fnum cs]
                  then Some (map snd ?g ! FragToWorker ?cs0 i, map fst ?g ! FragToWorker ?cs0 i)
                  else map_of [] i)" by blast
  have "map_of frags i = Some (snd (workers ! FragToWorker cs i),
                    instance_id (fst (workers ! FragToWorker cs i)))" if "i < comm_fnum cs" for i
  proof -
    have w: "FragToWorker cs i < length workers" using assms that by simp
    obtain c f where cf: "workers ! FragToWorker cs i = (c, f)" by (cases "workers ! FragToWorker cs i")
    show ?thesis using fm that w cf by (simp add: gather_send_def)
  qed
  with af show ?thesis by blast
qed

text \<open>A worker other than the root returns what the broadcast delivers, and waits when
  nothing is broadcast.\<close>

lemma non_root_outcome:
  "rank \<noteq> 0 \<Longrightarrow>
     constructFragmentGroup client (cs\<lparr>comm_worker_id := rank\<rparr>) v_label_num e_label_num
        gathered_instance_ids gathered_object_ids received store =
     ((case received of None \<Rightarrow> Blocked | Some group_object_id \<Rightarrow> Returned group_object_id),
      None, store)"
  by (simp add: constructFragmentGroup_def split: option.splits)

lemma non_root_outcomes:
  "map (\<lambda>(rank, client, frag_id).
          fst (constructFragmentGroup client (cs\<lparr>comm_worker_id := rank\<rparr>)
                 v_label_num e_label_num [] [] sent store1))
       (zip [1..<Suc (length others)] others) =
   replicate (length others) (case sent of None \<Rightarrow> Blocked | Some x \<Rightarrow> Returned x)"
proof -
  let ?o = "case sent of None \<Rightarrow> Blocked | Some x \<Rightarrow> Returned x"
  have "map (\<lambda>(rank, client, frag_id).
          fst (constructFragmentGroup client (cs\<lparr>comm_worker_id := rank\<rparr>)
                 v_label_num e_label_num [] [] sent store1))
       (zip [1..<Suc (length others)] others) =
        map (\<lambda>p. ?o) (zip [1..<Suc (length others)] others)"
  proof (intro map_cong refl)
    fix p assume "p \<in> set (zip [1..<Suc (length others)] others)"
    then have "fst p \<in> set [1..<Suc (length others)]"
      by (metis prod.collapse set_zip_leftD)
    then have "fst p \<noteq> 0" by (simp del: upt_Suc)
    then show "(case p of (rank, client, frag_id) \<Rightarrow>
          fst (constructFragmentGroup client (cs\<lparr>comm_worker_id := rank\<rparr>)
                 v_label_num e_label_num [] [] sent store1)) = ?o"
      by (cases p) (simp add: non_root_outcome)
  qed
  also have "\<dots> = replicate (length others) ?o"
    by (simp add: map_replicate_const del: upt_Suc)
  finally show ?thesis .
qed

text \<open>The run of the group, from the run of the root.\<close>

lemma group_run:
  assumes "workers = (root_client, root_frag_id) # others"
    and "constructFragmentGroup root_client (cs\<lparr>comm_worker_id := 0\<rparr>) v_label_num e_label_num
           (map fst (map (\<lambda>(client, frag_id). gather_send client frag_id) workers))
           (map snd (map (\<lambda>(client, frag_id). gather_send client frag_id) workers))
           None store = (root_outcome, sent, store1)"
  shows "constructFragmentGroup_group workers cs v_label_num e_label_num store =
           (root_outcome #
            replicate (length others) (case sent of None \<Rightarrow> Blocked | Some x \<Rightarrow> Returned x),
            store1)"
proof -
  have len: "[1..<length ((root_client, root_frag_id) # others)] = [1..<Suc (length others)]"
    by simp
  note root = assms(2) [unfolded assms(1)]
  show ?thesis
    unfolding constructFragmentGroup_group_def assms(1) list.case prod.case Let_def root len
      non_root_outcomes ..
qed

text \<open>When \<open>Persist\<close> fails, the root returns its error before the broadcast and every
  other worker waits for it.\<close>

lemma constructFragmentGroup_persist_failure:
  assumes "workers = (root_client, root_frag_id) # others"
    and "\<forall>i<comm_fnum cs. FragToWorker cs i < length workers"
    and "Persist root_client (new_object_id root_client) = Some e"
  shows "fst (constructFragmentGroup_group workers cs v_label_num e_label_num store) =
           Failed e # replicate (length others) Blocked"
proof -
  from gathered_fragments [OF assms(2)] obtain frags where
    af: "add_fragments (cs\<lparr>comm_worker_id := 0\<rparr>)
             (map snd (map (\<lambda>(client, frag_id). gather_send client frag_id) workers))
             (map fst (map (\<lambda>(client, frag_id). gather_send client frag_id) workers))
             [0..<comm_fnum cs] [] = Inr frags" by blast
  obtain store1 where root: "constructFragmentGroup root_client (cs\<lparr>comm_worker_id := 0\<rparr>) v_label_num e_label_num
           (map fst (map (\<lambda>(client, frag_id). gather_send client frag_id) workers))
           (map snd (map (\<lambda>(client, frag_id). gather_send client frag_id) workers))
           None store = (Failed e, None, store1)"
    using af assms(3) by (simp add: constructFragmentGroup_def Let_def)
  show ?thesis using group_run [OF assms(1) root] by simp
qed

text \<open>
  Claim C1, as amended. When the first non-null schema has at least one field and no other
  non-null schema has fewer fields, \<open>TypeLoosen\<close> returns a schema of that many fields;
  field \<open>i\<close> is the first non-null schema's field with the type \<open>loosen_type\<close>
  of the contributed types. When all contributed types are in the lattice, and the first
  one is floating or string, or a later one is floating, or no later one is string, that
  type is the least upper bound of int64 and the contributed types. In any order,
  {integer, floating} gives floating, {timestamp-seconds, integer} gives integer and
  {integer, floating, string} gives string.
\<close>

theorem TypeLoosen_widening:
  assumes "0 < first_num_fields schemas"
    and "list_all (\<lambda>s. first_num_fields schemas \<le> num_fields s) (non_null schemas)"
    and "i < first_num_fields schemas"
    and "ts = column_types schemas i"
  shows "\<exists>R. TypeLoosen schemas = Inr R \<and> num_fields R = first_num_fields schemas \<and>
           schema_fields R ! i = WithType (schema_fields (hd (non_null schemas)) ! i) (loosen_type ts) \<and>
           (list_all in_lattice ts \<and>
              (hd ts = float64 \<or> hd ts = utf8 \<or> float64 \<in> set (tl ts) \<or> utf8 \<notin> set (tl ts))
            \<longrightarrow> field_type (schema_fields R ! i) = lattice_sup int64 (lattice_lub ts)) \<and>
           (set ts = {int64, float64} \<longrightarrow> field_type (schema_fields R ! i) = float64) \<and>
           (set ts = {timestamp_SECOND, int64} \<longrightarrow> field_type (schema_fields R ! i) = int64) \<and>
           (set ts = {int64, float64, utf8} \<longrightarrow> field_type (schema_fields R ! i) = utf8)"
proof -
  let ?R = "loosened_schema schemas"
  have ok: "TypeLoosen schemas = Inr ?R" using assms(1,2) by (simp add: TypeLoosen_Inr_iff)
  have ne: "non_null schemas \<noteq> []" using assms(1) first_num_fields_non_null by blast
  then have tsne: "ts \<noteq> []" by (simp add: assms(4) column_types_def column_fields_def)
  have fld: "schema_fields ?R ! i = WithType (schema_fields (hd (non_null schemas)) ! i) (loosen_type ts)"
    using assms(3) ne
    by (simp add: loosened_schema_nth loosen_field_def assms(4) column_types_def column_fields_def hd_map)
  have ty: "field_type (schema_fields ?R ! i) = loosen_type ts"
    by (simp add: fld WithType_def)
  have "num_fields ?R = first_num_fields schemas" by (simp add: num_fields_def)
  moreover have "list_all in_lattice ts \<and>
              (hd ts = float64 \<or> hd ts = utf8 \<or> float64 \<in> set (tl ts) \<or> utf8 \<notin> set (tl ts))
            \<longrightarrow> field_type (schema_fields ?R ! i) = lattice_sup int64 (lattice_lub ts)"
    unfolding ty using loosen_type_lub [OF tsne] by blast
  moreover have "set ts = {int64, float64} \<longrightarrow> field_type (schema_fields ?R ! i) = float64"
    unfolding ty using loosen_type_int_float by blast
  moreover have "set ts = {timestamp_SECOND, int64} \<longrightarrow> field_type (schema_fields ?R ! i) = int64"
    unfolding ty using loosen_type_ts_int by blast
  moreover have "set ts = {int64, float64, utf8} \<longrightarrow> field_type (schema_fields ?R ! i) = utf8"
    unfolding ty using loosen_type_int_float_utf8 by blast
  ultimately show ?thesis using ok fld by blast
qed

theorem TypeLoosen_widening_witness:
  "0 < first_num_fields [None, Some (mk_schema [(''id'', timestamp_SECOND), (''w'', int64)]),
                               Some (mk_schema [(''id'', int64), (''w'', float64)])] \<and>
   column_types [None, Some (mk_schema [(''id'', timestamp_SECOND), (''w'', int64)]),
                       Some (mk_schema [(''id'', int64), (''w'', float64)])] 1 = [int64, float64] \<and>
   list_all in_lattice [int64, float64] \<and> float64 \<in> set (tl [int64, float64]) \<and>
   lattice_sup int64 (lattice_lub [int64, float64]) = float64 \<and>
   TypeLoosen [None, Some (mk_schema [(''id'', timestamp_SECOND), (''w'', int64)]),
                     Some (mk_schema [(''id'', int64), (''w'', float64)])]
     = Inr (mk_schema [(''id'', int64), (''w'', float64)])"
proof -
  let ?S = "[None, Some (mk_schema [(''id'', timestamp_SECOND), (''w'', int64)]),
                   Some (mk_schema [(''id'', int64), (''w'', float64)])]"
  have h1: "0 < first_num_fields ?S" by (simp add: mk_schema_def num_fields_def)
  have h2: "list_all (\<lambda>s. first_num_fields ?S \<le> num_fields s) (non_null ?S)"
    by (simp add: mk_schema_def num_fields_def)
  have h3: "1 < first_num_fields ?S" by (simp add: mk_schema_def num_fields_def)
  have h4: "[int64, float64] = column_types ?S 1"
    by (simp add: column_types_def column_fields_def mk_schema_def)
  have l: "lattice_sup int64 (lattice_lub [int64, float64]) = float64"
    by (simp add: lattice_sup_def lattice_lub_def)
  from TypeLoosen_widening [OF h1 h2 h3 h4]
  obtain R where R: "TypeLoosen ?S = Inr R" by blast
  have "TypeLoosen ?S = Inr (mk_schema [(''id'', int64), (''w'', float64)])"
    by (simp add: TypeLoosen_def Let_def mk_schema_def num_fields_def column_fields_def
        loosen_field_def loosen_type_def WithType_def upt_rec)
  then show ?thesis using h1 h4 [symmetric] l by (simp del: first_num_fields.simps)
qed

text \<open>
  Claim C1 as stated fails: with an integer column first and a string column second and no
  floating column, the reconciled type stays int64 although string lies above it; and a
  single timestamp(seconds) column is reconciled to int64, not to its own least upper bound.
\<close>

theorem TypeLoosen_lub_counterexample:
  "TypeLoosen [Some (mk_schema [(''c'', int64)]), Some (mk_schema [(''c'', utf8)])]
     = Inr (mk_schema [(''c'', int64)]) \<and>
   lattice_lub [int64, utf8] = utf8 \<and>
   TypeLoosen [Some (mk_schema [(''t'', timestamp_SECOND)])] = Inr (mk_schema [(''t'', int64)]) \<and>
   lattice_lub [timestamp_SECOND] = timestamp_SECOND"
  by (simp add: TypeLoosen_def Let_def mk_schema_def num_fields_def column_fields_def
        loosen_field_def loosen_type_def WithType_def lattice_lub_def lattice_sup_def)

text \<open>
  Claim C9, as amended. Whenever \<open>TypeLoosen\<close> returns a schema for a gathered list,
  reconciling the singleton list of that schema returns the same schema. A single schema
  with at least one field and no timestamp(seconds) field is reconciled to a schema with
  the same fields.
\<close>

theorem TypeLoosen_idempotent:
  "(TypeLoosen schemas = Inr R \<longrightarrow> TypeLoosen [Some R] = Inr R) \<and>
   (0 < num_fields s \<and> timestamp_SECOND \<notin> field_type ` set (schema_fields s) \<longrightarrow>
      (\<exists>R'. TypeLoosen [Some s] = Inr R' \<and> schema_fields R' = schema_fields s))"
proof -
  have "0 < num_fields s \<Longrightarrow> timestamp_SECOND \<notin> field_type ` set (schema_fields s) \<Longrightarrow>
      (\<exists>R'. TypeLoosen [Some s] = Inr R' \<and> schema_fields R' = schema_fields s)"
    using TypeLoosen_single [of s] by simp
  then show ?thesis using TypeLoosen_idem by blast
qed

theorem TypeLoosen_idempotent_witness:
  "TypeLoosen [Some (mk_schema [(''id'', timestamp_SECOND), (''w'', int64)]),
               Some (mk_schema [(''id'', int64), (''w'', float64)])]
     = Inr (mk_schema [(''id'', int64), (''w'', float64)]) \<and>
   TypeLoosen [Some (mk_schema [(''id'', int64), (''w'', float64)])]
     = Inr (mk_schema [(''id'', int64), (''w'', float64)]) \<and>
   0 < num_fields (mk_schema [(''id'', int64), (''w'', float64)]) \<and>
   timestamp_SECOND \<notin> field_type ` set (schema_fields (mk_schema [(''id'', int64), (''w'', float64)]))"
proof -
  let ?S = "[Some (mk_schema [(''id'', timestamp_SECOND), (''w'', int64)]),
             Some (mk_schema [(''id'', int64), (''w'', float64)])]"
  let ?R = "mk_schema [(''id'', int64), (''w'', float64)]"
  have h: "TypeLoosen ?S = Inr ?R"
    by (simp add: TypeLoosen_def Let_def mk_schema_def num_fields_def column_fields_def
        loosen_field_def loosen_type_def WithType_def upt_rec)
  have g: "0 < num_fields ?R \<and> timestamp_SECOND \<notin> field_type ` set (schema_fields ?R)"
    by (simp add: mk_schema_def num_fields_def)
  show ?thesis
    using TypeLoosen_idempotent [of ?S ?R ?R] h g by blast
qed

text \<open>
  Claim C9 as stated fails in its last part: a single schema with a timestamp(seconds)
  column is not reconciled to itself, alone or next to a copy of itself.
\<close>

theorem TypeLoosen_single_schema_counterexample:
  "TypeLoosen [Some (mk_schema [(''t'', timestamp_SECOND)])] = Inr (mk_schema [(''t'', int64)]) \<and>
   TypeLoosen [Some (mk_schema [(''t'', timestamp_SECOND)]), Some (mk_schema [(''t'', timestamp_SECOND)])]
     = Inr (mk_schema [(''t'', int64)]) \<and>
   schema_fields (mk_schema [(''t'', int64)]) \<noteq> schema_fields (mk_schema [(''t'', timestamp_SECOND)])"
  by (simp add: TypeLoosen_def Let_def mk_schema_def num_fields_def column_fields_def
        loosen_field_def loosen_type_def WithType_def)

text \<open>
  Claim C10. When every gathered schema is null, \<open>TypeLoosen\<close> fails with the
  invalid-operation error "Every schema is empty", and so does \<open>SyncSchema\<close> on every
  worker of a group in which no worker has a table: no schema and no empty table is
  synthesized.
\<close>

theorem all_schemas_null_fails:
  "((\<forall>s\<in>set schemas. s = None) \<longrightarrow>
      TypeLoosen schemas = Inl (GSError kInvalidOperationError ''Every schema is empty'') \<and>
      SyncSchema rt table schemas = Inl (GSError kInvalidOperationError ''Every schema is empty'')) \<and>
   ((\<forall>t\<in>set tables. t = None) \<longrightarrow>
      (\<forall>r\<in>set (SyncSchema_group rt tables).
         r = Inl (GSError kInvalidOperationError ''Every schema is empty'')))"
proof -
  have a: "TypeLoosen schemas = Inl (GSError kInvalidOperationError ''Every schema is empty'')"
    if "\<forall>s\<in>set schemas. s = None" for schemas
    using all_None_first_num_fields [OF that] by (simp add: TypeLoosen_def)
  have b: "\<forall>s\<in>set (GlobalAllGatherv tables). s = None" if "\<forall>t\<in>set tables. t = None"
    using that by (auto simp: GlobalAllGatherv_def local_schema_def)
  show ?thesis using a b by (auto simp: SyncSchema_def SyncSchema_group_def)
qed

theorem all_schemas_null_fails_witness:
  "list_all (\<lambda>s. s = None) [None, None :: Schema option] \<and>
   TypeLoosen [None, None] = Inl (GSError kInvalidOperationError ''Every schema is empty'') \<and>
   list_all (\<lambda>t. t = None) [None, None :: int Table option] \<and>
   SyncSchema_group exact_rt [None, None]
     = [Inl (GSError kInvalidOperationError ''Every schema is empty''),
        Inl (GSError kInvalidOperationError ''Every schema is empty'')]"
  using all_schemas_null_fails [of "[None, None]"
      "exact_rt" "None :: int Table option" "[None, None]"]
  by (simp add: SyncSchema_group_def)









text \<open>
  Claim C6 at its failing input: two edge files at positions 0 and 1 carry the same edge
  label. \<open>loadEdgeTables\<close> returns both tables and leaves the label mapped to index 1
  only, without any error; \<open>loadEVTablesFromEFiles\<close>, on the same files, fails with
  \<open>kInvalidValueError\<close>.
\<close>

theorem loadEdgeTables_label_index_overwritten:
  "fst (loadEdgeTables
     (single_worker_env
        [(''e0#header_row=true'', [(''label'', ''knows''), (''src_label'', ''person''), (''dst_label'', ''person'')]),
         (''e1#header_row=true'', [(''label'', ''knows''), (''src_label'', ''person''), (''dst_label'', ''person'')])]
        [(''e0#header_row=true'', edge_table [(1, 2)]), (''e1#header_row=true'', edge_table [(2, 3)])])
     (loader_state0 [(''person'', 0)] 2) [''e0'', ''e1''] 0 1)
   = Inr [[ReplaceSchemaMetadata (edge_table [(1, 2)]) (edge_meta 1 ''knows'' 0 0)],
          [ReplaceSchemaMetadata (edge_table [(2, 3)]) (edge_meta 1 ''knows'' 0 0)]] \<and>
   edge_label_to_index (snd (loadEdgeTables
     (single_worker_env
        [(''e0#header_row=true'', [(''label'', ''knows''), (''src_label'', ''person''), (''dst_label'', ''person'')]),
         (''e1#header_row=true'', [(''label'', ''knows''), (''src_label'', ''person''), (''dst_label'', ''person'')])]
        [(''e0#header_row=true'', edge_table [(1, 2)]), (''e1#header_row=true'', edge_table [(2, 3)])])
     (loader_state0 [(''person'', 0)] 2) [''e0'', ''e1''] 0 1))
   = [(''knows'', 1)] \<and>
   fst (loadEVTablesFromEFiles
     (single_worker_env
        [(''e0#header_row=true'', [(''label'', ''knows''), (''src_label'', ''person''), (''dst_label'', ''person'')]),
         (''e1#header_row=true'', [(''label'', ''knows''), (''src_label'', ''person''), (''dst_label'', ''person'')])]
        [(''e0#header_row=true'', edge_table [(1, 2)]), (''e1#header_row=true'', edge_table [(2, 3)])])
     (loader_state0 [] 2) [''e0'', ''e1''] 0 1)
   = Inl (GSError kInvalidValueError ''Edge label is not consistent, knows: 1 vs 0'')"
  by code_simp

text \<open>
  Claim C5. Whenever \<open>loadEVTablesFromEFiles\<close> returns tables for edge files that are all
  scanned (the edge label count is the number of files), there is one vertex table per
  discovered vertex label name and one edge table per sub-source; the names are numbered
  in increasing (lexicographic) order, and the numbering depends on the metadata of the
  file names only, so it is the same on every worker; the table of a label has the
  single column named after the label, holding without duplicates exactly the OIDs that
  appear in the source or destination column of the table the worker read for a
  sub-source under that label.
\<close>

theorem loadEV_vertex_tables:
  assumes "loadEVTablesFromEFiles (env :: 'd loader_env) st efiles index total_parts =
             (Inr (vtables, etables), st')"
    and "edge_label_num st = int (length efiles)"
    and "names = sorted_list_of_set (endpoint_labels env efiles)"
  shows "(\<forall>env' :: 'd loader_env. GetMeta env' = GetMeta env \<longrightarrow>
            sorted_list_of_set (endpoint_labels env' efiles) = names) \<and>
         map length etables = map (\<lambda>efile. length (boost_split efile)) efiles \<and>
         length vtables = length names \<and> vertex_label_num st' = int (length names) \<and>
         (\<forall>i<length names.
            map_of (vertex_label_to_index st') (names ! i) = Some (int i) \<and>
            (\<exists>oid_list. distinct oid_list \<and>
               set oid_list = scanned_oids env index total_parts efiles (names ! i) \<and>
               schema_fields (table_schema (vtables ! i)) =
                 [\<lparr>field_name = names ! i, field_type = int64, field_nullable = True\<rparr>] \<and>
               table_columns (vtables ! i) = [[Int64Array (map (\<lambda>oid. (True, oid)) oid_list)]]))"
proof -
  let ?subs = "concat (map boost_split efiles)"
  from assms(1) obtain nm where nm: "vertex_label_name_set env ?subs [] = Inr nm"
    by (cases "vertex_label_name_set env ?subs []") (auto simp: loadEVTablesFromEFiles_def)
  let ?st1 = "st\<lparr>vertex_label_num := int (length nm),
                 vertex_label_to_index := number_labels nm 0 (vertex_label_to_index st)\<rparr>"
  let ?ids = "[0..<nat (edge_label_num ?st1)]"
  obtain r st2 where l: "loadEV_labels env index total_parts efiles ?ids (replicate (length nm) []) ?st1 = (r, st2)"
    by (cases "loadEV_labels env index total_parts efiles ?ids (replicate (length nm) []) ?st1") auto
  from assms(1) nm l obtain oids where r: "r = Inr (etables, oids)"
    and vt: "vtables = map (\<lambda>v. vertex_table v (nm ! v) (oids ! v)) [0..<length nm]"
    and st': "st' = st2"
    by (cases r) (auto simp: loadEVTablesFromEFiles_def Let_def)
  from vertex_label_name_set_Inr [OF nm]
  have setnm: "set nm = endpoint_labels env efiles" and sd: "sorted nm" "distinct nm"
    by (simp_all add: endpoint_labels_def sub_sources_def)
  have "sorted_list_of_set (set nm) = nm"
    using sd by (simp add: sorted_list_of_set.idem_if_sorted_distinct)
  then have names: "names = nm" using assms(3) setnm by simp
  have ids: "?ids = [0..<length efiles]" using assms(2) by simp
  have "map (\<lambda>i. boost_split (efiles ! i)) [0..<length efiles] =
        map boost_split (map ((!) efiles) [0..<length efiles])" by simp
  also have "\<dots> = map boost_split efiles" by (simp only: map_nth)
  finally have subs: "concat (map (\<lambda>i. boost_split (efiles ! i)) ?ids) = sub_sources efiles"
    unfolding ids sub_sources_def by simp
  note inv = loadEV_labels_Inr [OF l [unfolded r]]
  have rd: "list_all2 (reads_sub env index total_parts) (sub_sources efiles) (concat etables)"
    using loadEV_labels_reads [OF l [unfolded r]] unfolding subs .
  have vli: "vertex_label_to_index st' = number_labels nm 0 (vertex_label_to_index st)"
    and vnum: "vertex_label_num st' = int (length nm)"
    and len: "length oids = length nm"
    using inv st' by simp_all
  have per: "map_of (vertex_label_to_index st') (nm ! i) = Some (int i) \<and>
            (\<exists>oid_list. distinct oid_list \<and>
               set oid_list = scanned_oids env index total_parts efiles (nm ! i) \<and>
               schema_fields (table_schema (vtables ! i)) =
                 [\<lparr>field_name = nm ! i, field_type = int64, field_nullable = True\<rparr>] \<and>
               table_columns (vtables ! i) = [[Int64Array (map (\<lambda>oid. (True, oid)) oid_list)]])"
    if i: "i < length nm" for i
  proof -
    have m: "map_of (vertex_label_to_index st') (nm ! i) = Some (int i)"
      unfolding vli using number_labels_nth [OF sd(2) i, of 0] by simp
    have "set (oids ! i) = contribs env (number_labels nm 0 (vertex_label_to_index st)) i
             (zip (sub_sources efiles) (concat etables))"
      using inv i unfolding subs by simp
    also have "\<dots> = endpoint_oids env efiles etables (nm ! i)"
      unfolding contribs_def endpoint_oids_def
    proof (rule SUP_cong [OF refl])
      fix ft assume "ft \<in> set (zip (sub_sources efiles) (concat etables))"
      then have "(fst ft, snd ft) \<in> set (zip (sub_sources efiles) (concat etables))" by simp
      then have "fst ft \<in> set (sub_sources efiles)" by (rule set_zip_leftD)
      then have "set_option (src_label_of env (fst ft)) \<union> set_option (dst_label_of env (fst ft)) \<subseteq> set nm"
        unfolding setnm endpoint_labels_def by blast
      from sub_contrib_numbered [OF sd(2) i this]
      show "sub_contrib env (number_labels nm 0 (vertex_label_to_index st)) i ft =
           (if src_label_of env (fst ft) = Some (nm ! i) then column_oids (snd ft) src_column else {}) \<union>
           (if dst_label_of env (fst ft) = Some (nm ! i) then column_oids (snd ft) dst_column else {})" .
    qed
    also have "\<dots> = scanned_oids env index total_parts efiles (nm ! i)"
      using rd by (rule endpoint_oids_scanned)
    finally have s: "set (oids ! i) = scanned_oids env index total_parts efiles (nm ! i)" .
    have d: "distinct (oids ! i)" using inv i by simp
    have t: "vtables ! i = vertex_table i (nm ! i) (oids ! i)" using i by (simp add: vt)
    have "schema_fields (table_schema (vtables ! i)) =
                 [\<lparr>field_name = nm ! i, field_type = int64, field_nullable = True\<rparr>] \<and>
          table_columns (vtables ! i) = [[Int64Array (map (\<lambda>oid. (True, oid)) (oids ! i))]]"
      unfolding t by (simp add: vertex_table_def ReplaceSchemaMetadata_def ToArrowArray_def)
    with m s d show ?thesis by blast
  qed
  have w: "sorted_list_of_set (endpoint_labels env' efiles) = nm" if "GetMeta env' = GetMeta env" for env' :: "'d loader_env"
    using that names assms(3) by (simp add: endpoint_labels_def src_label_of_def dst_label_of_def)
  have rows: "map length etables = map (\<lambda>efile. length (boost_split efile)) efiles"
  proof -
    have "map length etables = map (\<lambda>i. length (boost_split (efiles ! i))) [0..<length efiles]"
      using inv ids by simp
    also have "\<dots> = map (\<lambda>efile. length (boost_split efile)) (map ((!) efiles) [0..<length efiles])"
      by simp
    also have "\<dots> = map (\<lambda>efile. length (boost_split efile)) efiles" by (simp only: map_nth)
    finally show ?thesis .
  qed
  have "length vtables = length nm" by (simp add: vt)
  with vnum per w rows show ?thesis unfolding names by blast
qed

theorem loadEV_vertex_tables_witness:
  "fst (loadEVTablesFromEFiles two_files_env (loader_state0 [] 2) [''e0'', ''e1''] 0 1)
     = Inr ([vertex_table 0 ''item'' [7], vertex_table 1 ''person'' [30, 20, 10]],
            [[ReplaceSchemaMetadata (edge_table [(10, 20), (20, 30)]) (edge_meta 1 ''follows'' 1 1)],
             [ReplaceSchemaMetadata (edge_table [(10, 7), (30, 7)]) (edge_meta 1 ''likes'' 1 0)]]) \<and>
   edge_label_num (loader_state0 [] 2) = int (length [''e0'', ''e1'']) \<and>
   sorted_list_of_set (endpoint_labels two_files_env [''e0'', ''e1'']) = [''item'', ''person''] \<and>
   scanned_oids two_files_env 0 1 [''e0'', ''e1''] ''person'' = {10, 20, 30} \<and>
   scanned_oids two_files_env 0 1 [''e0'', ''e1''] ''item'' = {7} \<and>
   vertex_label_to_index
       (snd (loadEVTablesFromEFiles two_files_env (loader_state0 [] 2) [''e0'', ''e1''] 0 1))
     = [(''item'', 0), (''person'', 1)]"
proof -
  let ?res = "loadEVTablesFromEFiles two_files_env (loader_state0 [] 2) [''e0'', ''e1''] 0 1"
  let ?vt = "[vertex_table 0 ''item'' [7], vertex_table 1 ''person'' [30, 20, 10]] :: int Table list"
  let ?et = "[[ReplaceSchemaMetadata (edge_table [(10, 20), (20, 30)]) (edge_meta 1 ''follows'' 1 1)],
             [ReplaceSchemaMetadata (edge_table [(10, 7), (30, 7)]) (edge_meta 1 ''likes'' 1 0)]]"
  have f: "fst ?res = Inr (?vt, ?et)" by code_simp
  then have h1: "?res = (Inr (?vt, ?et), snd ?res)" by (metis prod.collapse)
  have h2: "edge_label_num (loader_state0 [] 2) = int (length [''e0'', ''e1''])"
    by (simp add: loader_state0_def)
  have n: "sorted_list_of_set (endpoint_labels two_files_env [''e0'', ''e1'']) = [''item'', ''person'']"
    by code_simp
  have o: "scanned_oids two_files_env 0 1 [''e0'', ''e1''] ''person'' = {10, 20, 30}"
    "scanned_oids two_files_env 0 1 [''e0'', ''e1''] ''item'' = {7}"
    by code_simp+
  have v: "vertex_label_to_index (snd ?res) = [(''item'', 0), (''person'', 1)]" by code_simp
  show ?thesis
    using loadEV_vertex_tables [OF h1 h2 n [symmetric]] f h2 n o v by blast
qed

text \<open>
  Claim C7, as amended. For a vertex label map none of whose indices is negative or equal
  to the vertex label count: when two vertex labels share an index, or an index exceeds
  the count, building the schema fails with \<open>kIOError\<close>. The same holds for the edge
  label map once the vertex label list and the vertex entries have been built.
\<close>

theorem label_conflict_fails:
  "(index_safe (vertex_label_num st) (vertex_label_to_index st) \<and>
    conflicting (vertex_label_num st) (vertex_label_to_index st) \<longrightarrow>
      (\<exists>msg. shuffleAndBuild_schema fnum st local_v_tables local_e_tables =
               Inl (GSError kIOError msg))) \<and>
   (make_label_list ''vertex'' (vertex_label_num st) (vertex_label_to_index st) = Inr vertex_label_list \<and>
    vertex_entries_loop vertex_label_list 0 local_v_tables = Inr ventries \<and>
    index_safe (edge_label_num st) (edge_label_to_index st) \<and>
    conflicting (edge_label_num st) (edge_label_to_index st) \<longrightarrow>
      (\<exists>msg. shuffleAndBuild_schema fnum st local_v_tables local_e_tables =
               Inl (GSError kIOError msg)))"
proof (intro conjI impI)
  assume "index_safe (vertex_label_num st) (vertex_label_to_index st) \<and>
    conflicting (vertex_label_num st) (vertex_label_to_index st)"
  with make_label_list_conflict [of "vertex_label_num st" "vertex_label_to_index st" "''vertex''"]
  obtain msg where "make_label_list ''vertex'' (vertex_label_num st) (vertex_label_to_index st) =
      Inl (GSError kIOError msg)" by auto
  then show "\<exists>msg. shuffleAndBuild_schema fnum st local_v_tables local_e_tables =
               Inl (GSError kIOError msg)"
    by (simp add: shuffleAndBuild_schema_def)
next
  assume a: "make_label_list ''vertex'' (vertex_label_num st) (vertex_label_to_index st) = Inr vertex_label_list \<and>
    vertex_entries_loop vertex_label_list 0 local_v_tables = Inr ventries \<and>
    index_safe (edge_label_num st) (edge_label_to_index st) \<and>
    conflicting (edge_label_num st) (edge_label_to_index st)"
  with make_label_list_conflict [of "edge_label_num st" "edge_label_to_index st" "''edge''"]
  obtain msg where "make_label_list ''edge'' (edge_label_num st) (edge_label_to_index st) =
      Inl (GSError kIOError msg)" by auto
  with a show "\<exists>msg. shuffleAndBuild_schema fnum st local_v_tables local_e_tables =
               Inl (GSError kIOError msg)"
    by (simp add: shuffleAndBuild_schema_def)
qed

theorem label_conflict_fails_witness:
  "index_safe (vertex_label_num (loader_state0 [(''a'', 0), (''b'', 0)] 0))
              (vertex_label_to_index (loader_state0 [(''a'', 0), (''b'', 0)] 0)) \<and>
   conflicting (vertex_label_num (loader_state0 [(''a'', 0), (''b'', 0)] 0))
               (vertex_label_to_index (loader_state0 [(''a'', 0), (''b'', 0)] 0)) \<and>
   shuffleAndBuild_schema 1 (loader_state0 [(''a'', 0), (''b'', 0)] 0) ([] :: int Table list) []
     = Inl (GSError kIOError ''Multiple vertex labels are mapped to one index.'') \<and>
   shuffleAndBuild_schema 1 (loader_state0 [(''a'', 5)] 0) ([] :: int Table list) []
     = Inl (GSError kIOError ''Failed to map vertex label to index'') \<and>
   make_label_list ''vertex'' 1 [(''person'', 0)] = Inr [''person''] \<and>
   vertex_entries_loop [''person''] 0 [vertex_table 0 ''person'' [1] :: int Table]
     = Inr [\<lparr>entry_label = ''person'', entry_type = ''VERTEX'', entry_primary_keys = [[]],
             entry_properties = [(''person'', int64)], entry_relations = []\<rparr>] \<and>
   shuffleAndBuild_schema 1
       ((loader_state0 [(''person'', 0)] 2)\<lparr>edge_label_to_index := [(''follows'', 0), (''likes'', 0)]\<rparr>)
       [vertex_table 0 ''person'' [1] :: int Table] []
     = Inl (GSError kIOError ''Multiple edge labels are mapped to one index.'')"
proof -
  let ?st = "loader_state0 [(''a'', 0), (''b'', 0)] 0"
  have h: "index_safe (vertex_label_num ?st) (vertex_label_to_index ?st) \<and>
           conflicting (vertex_label_num ?st) (vertex_label_to_index ?st)" by code_simp
  have a: "shuffleAndBuild_schema 1 ?st ([] :: int Table list) []
     = Inl (GSError kIOError ''Multiple vertex labels are mapped to one index.'')" by code_simp
  have b: "shuffleAndBuild_schema 1 (loader_state0 [(''a'', 5)] 0) ([] :: int Table list) []
     = Inl (GSError kIOError ''Failed to map vertex label to index'')" by code_simp
  have c: "make_label_list ''vertex'' 1 [(''person'', 0)] = Inr [''person'']" by code_simp
  have d: "vertex_entries_loop [''person''] 0 [vertex_table 0 ''person'' [1] :: int Table]
     = Inr [\<lparr>entry_label = ''person'', entry_type = ''VERTEX'', entry_primary_keys = [[]],
             entry_properties = [(''person'', int64)], entry_relations = []\<rparr>]" by code_simp
  have e: "shuffleAndBuild_schema 1
       ((loader_state0 [(''person'', 0)] 2)\<lparr>edge_label_to_index := [(''follows'', 0), (''likes'', 0)]\<rparr>)
       [vertex_table 0 ''person'' [1] :: int Table] []
     = Inl (GSError kIOError ''Multiple edge labels are mapped to one index.'')" by code_simp
  show ?thesis
    using label_conflict_fails [of ?st 1 "[] :: int Table list" "[]" "[]" "[]"] h a b c d e by blast
qed

text \<open>
  Claim C7 as stated fails: the error code of a duplicate mapping is \<open>kIOError\<close>, and an
  index equal to the label count, which is outside the valid range, passes the test
  \<open>pair.second > vertex_label_num_\<close> and is used as an out-of-range vector index instead
  of raising an error.
\<close>

theorem label_index_counterexample:
  "shuffleAndBuild_schema 1 (loader_state0 [(''a'', 0), (''b'', 0)] 0) ([] :: int Table list) []
     = Inl (GSError kIOError ''Multiple vertex labels are mapped to one index.'') \<and>
   shuffleAndBuild_schema 1 (loader_state0 [(''a'', 1)] 0) ([] :: int Table list) []
     = Inl UndefinedBehaviour"
  by code_simp



text \<open>
  Claim C8 as stated fails when \<open>Persist\<close> returns an error for the sealed group: the
  root returns that error before the broadcast, so it returns no group object id, and
  the other worker is left waiting in \<open>MPI_Bcast\<close>.
\<close>

theorem constructFragmentGroup_persist_counterexample:
  "fst (constructFragmentGroup_group
          [(example_client 101 99 (Some (ExternalError ''Persist'')), 11),
           (example_client 102 77 None, 12)]
          two_workers 1 1 \<lparr>store_objects = [], store_persisted = []\<rparr>)
   = [Failed (ExternalError ''Persist''), Blocked]"
  by code_simp


end
